theory Spec2Isabelle
  imports Complex_Main
begin

section \<open>The doctor pool: simpy.Resource as the two scripts use it\<close>

text \<open>
  Both scripts (DTA1.py, uniform.py) build \<^verbatim>\<open>simpy.Resource(env, num_doctors)\<close> in
  \<^verbatim>\<open>Hospital.__init__\<close> and touch it through exactly two calls: \<^verbatim>\<open>request()\<close>
  (in \<^verbatim>\<open>patient\<close> and in \<^verbatim>\<open>add_doctors\<close>) and the release performed when the
  \<^verbatim>\<open>with\<close> block of \<^verbatim>\<open>patient\<close> is left.  The resource itself is library code and not
  among the sources; the definitions below give the resource pool of the specification
  (capacity, holders, FIFO wait queue, acquire and release), with the library's names and
  the library's order of steps: a request always joins the wait queue first, and a grant
  always takes the head of the wait queue.

  A request object is identified by the number under which it was created; Python creates
  a new object at every call of \<^verbatim>\<open>request()\<close>, which is the counter \<open>next_request\<close>.
  \<open>users\<close> are the holders in the order of their grants, \<open>put_queue\<close> the waiting requests in
  the order of their filing, and \<open>succeeded\<close> the requests whose event has succeeded, in the
  order of the calls of \<^verbatim>\<open>succeed()\<close>, which is the order in which the kernel resumes the
  processes that wait for them.
\<close>

datatype py_error = ValueError

record Resource =
  capacity :: int
  users :: "nat list"
  put_queue :: "nat list"
  succeeded :: "nat list"
  next_request :: nat

text \<open>
  Modelled from the spec: the constructor of the resource pool (\<^verbatim>\<open>simpy.Resource\<close>) is
  not among the sources.  A pool starts with no holder and an empty wait queue; a capacity
  that is not positive is rejected.
\<close>

definition Resource_start :: "int \<Rightarrow> Resource" where
  "Resource_start c =
     \<lparr>capacity = c, users = [], put_queue = [], succeeded = [], next_request = 0\<rparr>"

definition Resource_new :: "int \<Rightarrow> py_error + Resource" where
  "Resource_new c = (if c \<le> 0 then Inl ValueError else Inr (Resource_start c))"

text \<open>The number of slots in use (the pool's \<^verbatim>\<open>count\<close>).\<close>

definition count :: "Resource \<Rightarrow> int" where
  "count r = int (length (users r))"

text \<open>
  Modelled from the spec: granting (\<^verbatim>\<open>_trigger_put\<close> with \<^verbatim>\<open>_do_put\<close>) is not among the
  sources.  The oldest waiting request is looked at; if a slot is free it becomes a holder,
  leaves the wait queue and its event succeeds.  One call grants at most one request.
  It is called when a request is filed and when the kernel processes a release.
\<close>

definition trigger_put :: "Resource \<Rightarrow> Resource" where
  "trigger_put r =
     (case put_queue r of
        [] \<Rightarrow> r
      | e # waiting \<Rightarrow>
          if count r < capacity r
          then r\<lparr>users := users r @ [e], put_queue := waiting, succeeded := succeeded r @ [e]\<rparr>
          else r)"

text \<open>
  Modelled from the spec: \<^verbatim>\<open>request()\<close> (acquire) is not among the sources.  The new
  request joins the tail of the wait queue and the pool then tries to grant, so that the
  request is granted at once when a slot is free and nobody waits in front of it.  The
  result is the request object together with the pool.
\<close>

definition request :: "Resource \<Rightarrow> nat \<times> Resource" where
  "request r =
     (let e = next_request r
      in (e, trigger_put (r\<lparr>put_queue := put_queue r @ [e], next_request := Suc e\<rparr>)))"

text \<open>
  Modelled from the spec: \<^verbatim>\<open>release(request)\<close> is not among the sources.  The holder is
  taken out of \<open>users\<close> (a request that holds nothing is ignored); the freed slot is offered
  to the wait queue by a later, separate call of \<open>trigger_put\<close> at the same simulation time.
  Leaving a \<^verbatim>\<open>with\<close> block would also withdraw a request that still waits; a patient
  leaves its block only after the grant, so there is nothing to withdraw.
\<close>

definition release :: "nat \<Rightarrow> Resource \<Rightarrow> Resource" where
  "release e r = r\<lparr>users := remove1 e (users r)\<rparr>"

subsection \<open>add_doctors (DTA1.py lines 90-96, uniform.py lines 85-92)\<close>

text \<open>
  \<^verbatim>\<open>
  def add_doctors(env, hospital, num_doctors_to_add):
      print(...)
      for _ in range(num_doctors_to_add):
          hospital.doctor.request()
          yield env.timeout(0)
  \<close>
  One turn of the loop files a request and drops the request object; the generator is
  resumed for the next turn at the same simulation time.  \<open>range\<close> of a number that is not
  positive is empty.
\<close>

definition add_doctors_turn :: "Resource \<Rightarrow> Resource" where
  "add_doctors_turn r = snd (request r)"

fun add_doctors_loop :: "nat \<Rightarrow> Resource \<Rightarrow> Resource" where
  "add_doctors_loop 0 r = r"
| "add_doctors_loop (Suc n) r = add_doctors_loop n (add_doctors_turn r)"

definition add_doctors :: "Resource \<Rightarrow> int \<Rightarrow> Resource" where
  "add_doctors doctor num_doctors_to_add = add_doctors_loop (nat num_doctors_to_add) doctor"

subsection \<open>Runs of pool operations\<close>

text \<open>
  Everything either script does to a pool is one of these operations; a run of the pool is
  any sequence of them, in any interleaving.
\<close>

datatype pool_op = Request | Release nat | Trigger | AddDoctors int

fun pool_step :: "pool_op \<Rightarrow> Resource \<Rightarrow> Resource" where
  "pool_step Request r = snd (request r)"
| "pool_step (Release e) r = release e r"
| "pool_step Trigger r = trigger_put r"
| "pool_step (AddDoctors k) r = add_doctors r k"

fun pool_run :: "pool_op list \<Rightarrow> Resource \<Rightarrow> Resource" where
  "pool_run [] r = r"
| "pool_run (x # xs) r = pool_run xs (pool_step x r)"

subsection \<open>Predicates on pools\<close>

text \<open>The capacity bound: between zero and \<open>capacity\<close> slots are in use.\<close>

definition capacity_ok :: "Resource \<Rightarrow> bool" where
  "capacity_ok r = (0 \<le> count r \<and> count r \<le> capacity r)"

text \<open>\<open>before a b xs\<close>: \<open>b\<close> occurs in \<open>xs\<close> after the first occurrence of \<open>a\<close>.\<close>

fun before :: "nat \<Rightarrow> nat \<Rightarrow> nat list \<Rightarrow> bool" where
  "before a b [] = False"
| "before a b (x # xs) = (if x = a then b \<in> set xs else before a b xs)"

text \<open>
  The requests that have succeeded, followed by the requests that wait, are all requests
  ever filed, in the order of filing.
\<close>

definition filed_in_order :: "Resource \<Rightarrow> bool" where
  "filed_in_order r = (succeeded r @ put_queue r = [0 ..< next_request r])"

text \<open>A pool is settled when no request waits while a slot is free.\<close>

definition settled :: "Resource \<Rightarrow> bool" where
  "settled r = (put_queue r = [] \<or> capacity r \<le> count r)"

section \<open>The two scripts\<close>

subsection \<open>Constants (DTA1.py lines 8-13, uniform.py lines 9-14)\<close>

text \<open>
  The seed and \<open>T_INTER\<close> only feed the random draws, which are inputs of a run here (the
  value in \<open>Granted\<close>, the times in \<open>Advance\<close>).
\<close>

definition RANDOM_SEED :: int where "RANDOM_SEED = 48"
definition NUM_DOCTORS :: int where "NUM_DOCTORS = 2"
definition TREATMENT_TIME :: int where "TREATMENT_TIME = 5"
definition T_INTER :: int where "T_INTER = 7"
definition SIM_TIME :: int where "SIM_TIME = 200"
definition TREAT_PROBABILITY :: real where "TREAT_PROBABILITY = 8 / 10"

subsection \<open>Hospital and the module-level lists\<close>

text \<open>
  Times and durations are Python floats in DTA1.py and Python ints in uniform.py; both are
  read as real numbers, and \<open>/\<close> is division of reals (rounding to a double is left out).

  \<^verbatim>\<open>simpy.Store(env)\<close> of uniform.py is a list of items of unbounded capacity: a put
  appends its item at once, and the script never gets an item back out.
\<close>

record Store =
  items :: "nat list"

record Hospital =
  doctor :: Resource
  treatment_time :: int

record Hospital_DTA1 = Hospital +
  queue_length :: int

record Hospital_uniform = Hospital +
  queue :: Store

text \<open>
  A patient process is a generator; between two resumptions it is suspended at one of its
  \<open>yield\<close>s, or it has returned.
  \<^item> \<open>Joining a\<close>: at \<^verbatim>\<open>yield env.timeout(0)\<close> (uniform.py line 46), \<open>a\<close> its arrival time;
  \<^item> \<open>Waiting e a\<close>: at \<^verbatim>\<open>yield request\<close>, \<open>e\<close> its request;
  \<^item> \<open>Treating e\<close>: at \<^verbatim>\<open>yield env.process(hospital.treat(name))\<close>;
  \<^item> \<open>Treated\<close>, \<open>LeftWithoutTreatment\<close>: returned, after the append to \<open>treated_times\<close> or to
    \<open>left_without_treatment_times\<close>.
\<close>

datatype process =
    Joining real
  | Waiting nat real
  | Treating nat
  | Treated
  | LeftWithoutTreatment

text \<open>
  The state of a run: the clock \<^verbatim>\<open>env.now\<close>, the module-level \<open>hospital\<close> (line 104 of
  DTA1.py, line 100 of uniform.py), the \<open>hospital\<close> that is local to \<open>setup\<close> (line 74,
  line 71) and that every patient is given, the module-level lists, and the patient
  processes in the order in which \<open>setup\<close> started them (\<open>Patient i\<close> is entry \<open>i - 1\<close>).
\<close>

record 'h simulation =
  now :: real
  hospital :: 'h
  setup_hospital :: 'h
  arrival_times :: "real list"
  treated_times :: "real list"
  left_without_treatment_times :: "real list"
  wait_times :: "real list"
  queue_lengths :: "int list"
  processes :: "process list"

record DTA1 = "Hospital_DTA1 simulation" +
  time_stamps :: "real list"

type_synonym uniform = "Hospital_uniform simulation"

text \<open>
  What the kernel does next: the clock moves on, \<open>setup\<close> starts a patient, a patient is
  resumed from one of its \<open>yield\<close>s (\<open>Granted\<close> carries the value drawn by
  \<^verbatim>\<open>random.random()\<close>), the callback of a release offers the freed slot to the wait
  queue, or \<open>add_doctors\<close> runs one turn of its loop.  A resumption that is not due leaves
  the state as it is.  The kernel's event heap and the random draws are not modelled: a run
  is any sequence of these events, which includes every schedule the kernel can produce.
\<close>

datatype event =
    Advance real
  | Arrive
  | Joined nat
  | Granted nat real
  | TreatmentDone nat
  | Callback
  | AddDoctor

subsection \<open>DTA1.py\<close>

text \<open>
  \<open>Hospital.__init__\<close> (lines 25-29), and the state when \<open>env.run\<close> is first called.  With
  \<open>num_doctors \<le> 0\<close> the constructor of the pool raises (\<open>Resource_new\<close>) and there is no
  run.
\<close>

definition Hospital_DTA1_init :: "int \<Rightarrow> int \<Rightarrow> Hospital_DTA1" where
  "Hospital_DTA1_init num_doctors treatment_time' =
     \<lparr>doctor = Resource_start num_doctors, treatment_time = treatment_time', queue_length = 0\<rparr>"

definition DTA1_start :: "int \<Rightarrow> int \<Rightarrow> DTA1" where
  "DTA1_start num_doctors treatment_time' =
     \<lparr>now = 0,
      hospital = Hospital_DTA1_init num_doctors treatment_time',
      setup_hospital = Hospital_DTA1_init num_doctors treatment_time',
      arrival_times = [], treated_times = [], left_without_treatment_times = [],
      wait_times = [], queue_lengths = [], processes = [], time_stamps = []\<rparr>"

text \<open>\<open>patient\<close>, lines 40-51: from the start of the generator to \<^verbatim>\<open>yield request\<close>.\<close>

definition patient_arrives :: "DTA1 \<Rightarrow> DTA1" where
  "patient_arrives s =
     (let arrival_time = now s;
          h = setup_hospital s;
          n = queue_length h + 1;
          (req, pool) = request (doctor h)
      in s\<lparr>arrival_times := arrival_times s @ [arrival_time],
           queue_lengths := queue_lengths s @ [n],
           time_stamps := time_stamps s @ [arrival_time],
           setup_hospital := h\<lparr>doctor := pool, queue_length := n\<rparr>,
           processes := processes s @ [Waiting req arrival_time]\<rparr>)"

text \<open>
  \<open>patient\<close>, lines 53-70: from \<^verbatim>\<open>yield request\<close> to the next \<open>yield\<close> (the patient is
  treated) or to the end of the \<open>with\<close> block, which releases the request (the patient
  leaves).  \<open>u\<close> is the value of \<^verbatim>\<open>random.random()\<close>.
\<close>

definition patient_granted :: "nat \<Rightarrow> real \<Rightarrow> DTA1 \<Rightarrow> DTA1" where
  "patient_granted i u s =
     (if i < length (processes s) then
        (case processes s ! i of
           Waiting req arrival_time \<Rightarrow>
             if req \<in> set (succeeded (doctor (setup_hospital s))) then
               (let h = setup_hospital s;
                    n = queue_length h - 1;
                    wait_time = now s - arrival_time;
                    s1 = s\<lparr>queue_lengths := queue_lengths s @ [n],
                           time_stamps := time_stamps s @ [now s],
                           wait_times := wait_times s @ [wait_time]\<rparr>
                in if u < TREAT_PROBABILITY
                   then s1\<lparr>setup_hospital := h\<lparr>queue_length := n\<rparr>,
                           processes := (processes s)[i := Treating req]\<rparr>
                   else s1\<lparr>left_without_treatment_times :=
                             left_without_treatment_times s @ [now s],
                           setup_hospital :=
                             h\<lparr>doctor := release req (doctor h), queue_length := n\<rparr>,
                           processes := (processes s)[i := LeftWithoutTreatment]\<rparr>)
             else s
         | _ \<Rightarrow> s)
      else s)"

text \<open>
  \<open>patient\<close>, lines 65-66 and the end of the \<open>with\<close> block: resumed when the process of
  \<open>Hospital.treat\<close> (lines 31-35) has ended.
\<close>

definition patient_treated :: "nat \<Rightarrow> DTA1 \<Rightarrow> DTA1" where
  "patient_treated i s =
     (if i < length (processes s) then
        (case processes s ! i of
           Treating req \<Rightarrow>
             (let h = setup_hospital s
              in s\<lparr>treated_times := treated_times s @ [now s],
                   setup_hospital := h\<lparr>doctor := release req (doctor h)\<rparr>,
                   processes := (processes s)[i := Treated]\<rparr>)
         | _ \<Rightarrow> s)
      else s)"

text \<open>
  One step of the run.  \<open>add_doctors\<close> is started at line 108 on the module-level
  \<open>hospital\<close>, not on the one \<open>setup\<close> made for the patients.
\<close>

fun DTA1_step :: "event \<Rightarrow> DTA1 \<Rightarrow> DTA1" where
  "DTA1_step (Advance t) s = (if now s \<le> t then s\<lparr>now := t\<rparr> else s)"
| "DTA1_step Arrive s = patient_arrives s"
| "DTA1_step (Joined i) s = s"
| "DTA1_step (Granted i u) s = patient_granted i u s"
| "DTA1_step (TreatmentDone i) s = patient_treated i s"
| "DTA1_step Callback s =
     s\<lparr>setup_hospital := (setup_hospital s)\<lparr>doctor := trigger_put (doctor (setup_hospital s))\<rparr>\<rparr>"
| "DTA1_step AddDoctor s =
     s\<lparr>hospital := (hospital s)\<lparr>doctor := add_doctors_turn (doctor (hospital s))\<rparr>\<rparr>"

fun DTA1_run :: "event list \<Rightarrow> DTA1 \<Rightarrow> DTA1" where
  "DTA1_run [] s = s"
| "DTA1_run (e # es) s = DTA1_run es (DTA1_step e s)"

subsection \<open>uniform.py\<close>

definition Hospital_uniform_init :: "int \<Rightarrow> int \<Rightarrow> Hospital_uniform" where
  "Hospital_uniform_init num_doctors treatment_time' =
     \<lparr>doctor = Resource_start num_doctors, treatment_time = treatment_time',
      queue = \<lparr>items = []\<rparr>\<rparr>"

definition uniform_start :: "int \<Rightarrow> int \<Rightarrow> uniform" where
  "uniform_start num_doctors treatment_time' =
     \<lparr>now = 0,
      hospital = Hospital_uniform_init num_doctors treatment_time',
      setup_hospital = Hospital_uniform_init num_doctors treatment_time',
      arrival_times = [], treated_times = [], left_without_treatment_times = [],
      wait_times = [], queue_lengths = [], processes = []\<rparr>"

text \<open>
  \<open>patient\<close>, lines 39-46: from the start of the generator to \<^verbatim>\<open>yield env.timeout(0)\<close>.
  The sample is taken before the put; the name \<open>Patient i\<close> is stored as the number \<open>i\<close>.
\<close>

definition uniform_patient_arrives :: "uniform \<Rightarrow> uniform" where
  "uniform_patient_arrives s =
     (let arrival_time = now s;
          h = setup_hospital s;
          name = Suc (length (processes s))
      in s\<lparr>arrival_times := arrival_times s @ [arrival_time],
           queue_lengths := queue_lengths s @ [int (length (items (queue h)))],
           setup_hospital := h\<lparr>queue := (queue h)\<lparr>items := items (queue h) @ [name]\<rparr>\<rparr>,
           processes := processes s @ [Joining arrival_time]\<rparr>)"

text \<open>\<open>patient\<close>, lines 49-50: resumed from the timeout, up to \<^verbatim>\<open>yield request\<close>.\<close>

definition uniform_patient_joined :: "nat \<Rightarrow> uniform \<Rightarrow> uniform" where
  "uniform_patient_joined i s =
     (if i < length (processes s) then
        (case processes s ! i of
           Joining arrival_time \<Rightarrow>
             (let h = setup_hospital s;
                  (req, pool) = request (doctor h)
              in s\<lparr>setup_hospital := h\<lparr>doctor := pool\<rparr>,
                   processes := (processes s)[i := Waiting req arrival_time]\<rparr>)
         | _ \<Rightarrow> s)
      else s)"

text \<open>\<open>patient\<close>, lines 52-67: from \<^verbatim>\<open>yield request\<close> on.\<close>

definition uniform_patient_granted :: "nat \<Rightarrow> real \<Rightarrow> uniform \<Rightarrow> uniform" where
  "uniform_patient_granted i u s =
     (if i < length (processes s) then
        (case processes s ! i of
           Waiting req arrival_time \<Rightarrow>
             if req \<in> set (succeeded (doctor (setup_hospital s))) then
               (let h = setup_hospital s;
                    wait_time = now s - arrival_time;
                    s1 = s\<lparr>queue_lengths := queue_lengths s @ [int (length (items (queue h)))],
                           wait_times := wait_times s @ [wait_time]\<rparr>
                in if u < TREAT_PROBABILITY
                   then s1\<lparr>processes := (processes s)[i := Treating req]\<rparr>
                   else s1\<lparr>left_without_treatment_times :=
                             left_without_treatment_times s @ [now s],
                           setup_hospital := h\<lparr>doctor := release req (doctor h)\<rparr>,
                           processes := (processes s)[i := LeftWithoutTreatment]\<rparr>)
             else s
         | _ \<Rightarrow> s)
      else s)"

definition uniform_patient_treated :: "nat \<Rightarrow> uniform \<Rightarrow> uniform" where
  "uniform_patient_treated i s =
     (if i < length (processes s) then
        (case processes s ! i of
           Treating req \<Rightarrow>
             (let h = setup_hospital s
              in s\<lparr>treated_times := treated_times s @ [now s],
                   setup_hospital := h\<lparr>doctor := release req (doctor h)\<rparr>,
                   processes := (processes s)[i := Treated]\<rparr>)
         | _ \<Rightarrow> s)
      else s)"

fun uniform_step :: "event \<Rightarrow> uniform \<Rightarrow> uniform" where
  "uniform_step (Advance t) s = (if now s \<le> t then s\<lparr>now := t\<rparr> else s)"
| "uniform_step Arrive s = uniform_patient_arrives s"
| "uniform_step (Joined i) s = uniform_patient_joined i s"
| "uniform_step (Granted i u) s = uniform_patient_granted i u s"
| "uniform_step (TreatmentDone i) s = uniform_patient_treated i s"
| "uniform_step Callback s =
     s\<lparr>setup_hospital := (setup_hospital s)\<lparr>doctor := trigger_put (doctor (setup_hospital s))\<rparr>\<rparr>"
| "uniform_step AddDoctor s =
     s\<lparr>hospital := (hospital s)\<lparr>doctor := add_doctors_turn (doctor (hospital s))\<rparr>\<rparr>"

fun uniform_run :: "event list \<Rightarrow> uniform \<Rightarrow> uniform" where
  "uniform_run [] s = s"
| "uniform_run (e # es) s = uniform_run es (uniform_step e s)"

subsection \<open>The reported results (DTA1.py lines 112-121, uniform.py lines 115, 130-141)\<close>

datatype py_float = Finite real | Infinity

definition total_patients :: "('h, 'z) simulation_scheme \<Rightarrow> nat" where
  "total_patients s = length (arrival_times s)"

definition treated_count :: "('h, 'z) simulation_scheme \<Rightarrow> nat" where
  "treated_count s = length (treated_times s)"

definition left_without_treatment_count :: "('h, 'z) simulation_scheme \<Rightarrow> nat" where
  "left_without_treatment_count s = length (left_without_treatment_times s)"

definition average_wait_time :: "('h, 'z) simulation_scheme \<Rightarrow> py_float" where
  "average_wait_time s =
     (if wait_times s \<noteq> []
      then Finite (sum_list (wait_times s) / real (length (wait_times s)))
      else Infinity)"

definition average_queue_length :: "('h, 'z) simulation_scheme \<Rightarrow> real" where
  "average_queue_length s =
     (if queue_lengths s \<noteq> []
      then real_of_int (sum_list (queue_lengths s)) / real (length (queue_lengths s))
      else 0)"

text \<open>DTA1.py divides by the literal 200, uniform.py by \<open>SIM_TIME\<close>.\<close>

definition throughput_DTA1 :: "DTA1 \<Rightarrow> real" where
  "throughput_DTA1 s = real (treated_count s) / 200"

definition throughput_uniform :: "uniform \<Rightarrow> real" where
  "throughput_uniform s = real (treated_count s) / real_of_int SIM_TIME"

subsection \<open>Counting patient processes\<close>

fun terminal :: "process \<Rightarrow> bool" where
  "terminal Treated = True"
| "terminal LeftWithoutTreatment = True"
| "terminal _ = False"

text \<open>A patient has been granted a doctor once it is past \<^verbatim>\<open>yield request\<close>.\<close>

fun granted :: "process \<Rightarrow> bool" where
  "granted (Joining a) = False"
| "granted (Waiting e a) = False"
| "granted _ = True"

definition number_of :: "(process \<Rightarrow> bool) \<Rightarrow> ('h, 'z) simulation_scheme \<Rightarrow> nat" where
  "number_of P s = length (filter P (processes s))"

text \<open>The number of turns of the loop of \<open>add_doctors\<close> in a run.\<close>

definition add_doctor_turns :: "event list \<Rightarrow> nat" where
  "add_doctor_turns es = length (filter (\<lambda>e. e = AddDoctor) es)"

subsection \<open>Bookkeeping of a run\<close>

text \<open>
  The lists grow with the patient processes: one arrival time for each process, one treated
  or left time for each process that has returned that way, one wait time for each process
  that has been granted a doctor, and one queue-length sample for each arrival and each
  grant.
\<close>

definition tallies :: "('h, 'z) simulation_scheme \<Rightarrow> bool" where
  "tallies s =
     (length (arrival_times s) = length (processes s) \<and>
      length (treated_times s) = number_of (\<lambda>p. p = Treated) s \<and>
      length (left_without_treatment_times s) = number_of (\<lambda>p. p = LeftWithoutTreatment) s \<and>
      length (wait_times s) = number_of granted s \<and>
      length (queue_lengths s) = length (arrival_times s) + length (wait_times s))"

text \<open>
  uniform.py: the store holds one item for each patient that has arrived, and the samples
  never go down nor above the number of patients.
\<close>

definition store_kept :: "uniform \<Rightarrow> bool" where
  "store_kept s =
     (length (items (queue (setup_hospital s))) = length (processes s) \<and>
      sorted (queue_lengths s) \<and>
      (\<forall>n\<in>set (queue_lengths s). n \<le> int (length (processes s))))"

text \<open>DTA1.py: the counter \<open>queue_length\<close> is arrivals minus grants.\<close>

definition counter_kept :: "DTA1 \<Rightarrow> bool" where
  "counter_kept s =
     (queue_length (setup_hospital s)
        = int (length (arrival_times s)) - int (length (wait_times s)))"

text \<open>
  Patients and the pool.  \<open>holds e p\<close>: the process \<open>p\<close> is suspended at \<^verbatim>\<open>yield request\<close>
  with request \<open>e\<close>.  \<open>pending r p\<close>: the pool \<open>r\<close> has granted the request of \<open>p\<close> and the
  kernel has not resumed \<open>p\<close> yet.  \<open>due i s\<close>: \<open>Granted i\<close> resumes a process in state \<open>s\<close>.
\<close>

fun holds :: "nat \<Rightarrow> process \<Rightarrow> bool" where
  "holds e (Waiting e' a) = (e' = e)"
| "holds e _ = False"

definition pending :: "Resource \<Rightarrow> process \<Rightarrow> bool" where
  "pending r p = (case p of Waiting e a \<Rightarrow> e \<in> set (succeeded r) | _ \<Rightarrow> False)"

definition due :: "nat \<Rightarrow> ('a Hospital_scheme, 'z) simulation_scheme \<Rightarrow> bool" where
  "due i s =
     (i < length (processes s) \<and> pending (doctor (setup_hospital s)) (processes s ! i))"

fun joining :: "process \<Rightarrow> bool" where
  "joining (Joining a) = True"
| "joining _ = False"

text \<open>
  Every waiting request belongs to exactly one suspended patient, no patient holds a
  request that has not been filed, and every granted request belongs to a patient that is
  past \<^verbatim>\<open>yield request\<close> or is about to be resumed there.
\<close>

definition linked :: "process list \<Rightarrow> Resource \<Rightarrow> bool" where
  "linked ps r =
     (filed_in_order r \<and>
      (\<forall>e. length (filter (holds e) ps) \<le> 1) \<and>
      (\<forall>e\<in>set (put_queue r). filter (holds e) ps \<noteq> []) \<and>
      (\<forall>e. next_request r \<le> e \<longrightarrow> filter (holds e) ps = []) \<and>
      length (succeeded r) = length (filter granted ps) + length (filter (pending r) ps))"

definition linked_run :: "('a Hospital_scheme, 'z) simulation_scheme \<Rightarrow> bool" where
  "linked_run s = linked (processes s) (doctor (setup_hospital s))"

text \<open>Every patient that is past its first \<open>yield\<close> has filed one request.\<close>

definition requests_filed :: "('a Hospital_scheme, 'z) simulation_scheme \<Rightarrow> bool" where
  "requests_filed s =
     (next_request (doctor (setup_hospital s)) + number_of joining s = length (processes s))"

section \<open>Properties of the pool\<close>

lemma trigger_put_capacity [simp]: "capacity (trigger_put r) = capacity r"
  by (simp add: trigger_put_def split: list.splits)

lemma trigger_put_next [simp]: "next_request (trigger_put r) = next_request r"
  by (simp add: trigger_put_def split: list.splits)

lemma trigger_put_all: "users (trigger_put r) @ put_queue (trigger_put r) = users r @ put_queue r"
  by (simp add: trigger_put_def split: list.splits)

lemma turn_capacity [simp]: "capacity (add_doctors_turn r) = capacity r"
  by (simp add: add_doctors_turn_def request_def Let_def)

lemma turn_next [simp]: "next_request (add_doctors_turn r) = Suc (next_request r)"
  by (simp add: add_doctors_turn_def request_def Let_def)

lemma turn_all:
  "users (add_doctors_turn r) @ put_queue (add_doctors_turn r)
     = users r @ put_queue r @ [next_request r]"
  by (simp add: add_doctors_turn_def request_def Let_def trigger_put_all)

lemma turn_full:
  "count r = capacity r \<Longrightarrow>
     users (add_doctors_turn r) = users r \<and>
     put_queue (add_doctors_turn r) = put_queue r @ [next_request r] \<and>
     succeeded (add_doctors_turn r) = succeeded r"
  by (simp add: add_doctors_turn_def request_def Let_def trigger_put_def count_def
      split: list.splits)

lemma loop_capacity [simp]: "capacity (add_doctors_loop n r) = capacity r"
  by (induction n arbitrary: r) simp_all

lemma loop_next [simp]: "next_request (add_doctors_loop n r) = next_request r + n"
  by (induction n arbitrary: r) simp_all

lemma loop_all:
  "users (add_doctors_loop n r) @ put_queue (add_doctors_loop n r)
     = users r @ put_queue r @ [next_request r ..< next_request r + n]"
proof (induction n arbitrary: r)
  case 0
  show ?case by simp
next
  case (Suc n)
  have "[next_request r ..< next_request r + Suc n]
          = next_request r # [Suc (next_request r) ..< Suc (next_request r) + n]"
    by (simp add: upt_conv_Cons)
  then show ?case
    using Suc.IH [of "add_doctors_turn r"] by (simp add: turn_all)
qed

lemma loop_full:
  "count r = capacity r \<Longrightarrow>
     users (add_doctors_loop n r) = users r \<and>
     put_queue (add_doctors_loop n r) = put_queue r @ [next_request r ..< next_request r + n] \<and>
     succeeded (add_doctors_loop n r) = succeeded r"
proof (induction n arbitrary: r)
  case 0
  show ?case by simp
next
  case (Suc n)
  let ?r = "add_doctors_turn r"
  have t: "users ?r = users r" "put_queue ?r = put_queue r @ [next_request r]"
    "succeeded ?r = succeeded r"
    using turn_full [OF Suc.prems] by simp_all
  have "count ?r = capacity ?r"
    using Suc.prems t by (simp add: count_def)
  from Suc.IH [OF this] show ?case
    using t by (simp add: upt_conv_Cons)
qed

lemma add_doctors_all:
  "users (add_doctors r k) @ put_queue (add_doctors r k)
     = users r @ put_queue r @ [next_request r ..< next_request r + nat k]"
  by (simp add: add_doctors_def loop_all)

lemma pool_step_capacity [simp]: "capacity (pool_step x r) = capacity r"
  by (cases x) (simp_all add: request_def release_def add_doctors_def Let_def)

lemma pool_run_capacity: "capacity (pool_run xs r) = capacity r"
  by (induction xs arbitrary: r) simp_all

lemmas pool_defs =
  Resource_new_def Resource_start_def request_def trigger_put_def release_def count_def
  add_doctors_def add_doctors_turn_def Let_def

subsection \<open>The capacity bound\<close>

lemma trigger_put_ok: "capacity_ok r \<Longrightarrow> capacity_ok (trigger_put r)"
  by (auto simp: capacity_ok_def trigger_put_def count_def split: list.splits)

lemma release_ok: "capacity_ok r \<Longrightarrow> capacity_ok (release e r)"
proof -
  assume ok: "capacity_ok r"
  have "length (remove1 e (users r)) \<le> length (users r)"
    by (simp add: length_remove1)
  with ok show ?thesis
    by (simp add: capacity_ok_def release_def count_def)
qed

lemma turn_ok: "capacity_ok r \<Longrightarrow> capacity_ok (add_doctors_turn r)"
proof -
  assume ok: "capacity_ok r"
  let ?q = "r\<lparr>put_queue := put_queue r @ [next_request r], next_request := Suc (next_request r)\<rparr>"
  from ok have "capacity_ok ?q"
    by (simp add: capacity_ok_def count_def)
  then have "capacity_ok (trigger_put ?q)"
    by (rule trigger_put_ok)
  then show ?thesis
    by (simp add: add_doctors_turn_def request_def Let_def)
qed

lemma loop_ok: "capacity_ok r \<Longrightarrow> capacity_ok (add_doctors_loop n r)"
  by (induction n arbitrary: r) (simp_all add: turn_ok)

lemma pool_step_ok: "capacity_ok r \<Longrightarrow> capacity_ok (pool_step x r)"
proof (cases x)
  case Request
  assume "capacity_ok r"
  then show ?thesis
    using turn_ok [of r] Request by (simp add: add_doctors_turn_def)
next
  case (Release e)
  assume "capacity_ok r"
  then show ?thesis using Release by (simp add: release_ok)
next
  case Trigger
  assume "capacity_ok r"
  then show ?thesis using Trigger by (simp add: trigger_put_ok)
next
  case (AddDoctors k)
  assume "capacity_ok r"
  then show ?thesis using AddDoctors by (simp add: add_doctors_def loop_ok)
qed

lemma pool_run_ok: "capacity_ok r \<Longrightarrow> capacity_ok (pool_run xs r)"
  by (induction xs arbitrary: r) (simp_all add: pool_step_ok)

lemma Resource_new_ok: "Resource_new c = Inr r \<Longrightarrow> capacity_ok r"
  by (auto simp: Resource_new_def Resource_start_def capacity_ok_def count_def split: if_splits)

subsection \<open>Grant order\<close>

lemma before_sorted:
  "sorted_wrt (<) xs \<Longrightarrow> before a b xs \<longleftrightarrow> a \<in> set xs \<and> b \<in> set xs \<and> a < b"
  by (induction xs) auto

lemma trigger_put_filed: "filed_in_order r \<Longrightarrow> filed_in_order (trigger_put r)"
  by (auto simp: filed_in_order_def trigger_put_def split: list.splits)

lemma turn_filed: "filed_in_order r \<Longrightarrow> filed_in_order (add_doctors_turn r)"
proof -
  assume f: "filed_in_order r"
  let ?q = "r\<lparr>put_queue := put_queue r @ [next_request r], next_request := Suc (next_request r)\<rparr>"
  from f have "succeeded r @ put_queue r @ [next_request r] = [0 ..< Suc (next_request r)]"
    by (simp add: filed_in_order_def flip: append_assoc)
  then have "filed_in_order ?q"
    by (simp add: filed_in_order_def)
  then have "filed_in_order (trigger_put ?q)"
    by (rule trigger_put_filed)
  then show ?thesis
    by (simp add: add_doctors_turn_def request_def Let_def)
qed

lemma loop_filed: "filed_in_order r \<Longrightarrow> filed_in_order (add_doctors_loop n r)"
  by (induction n arbitrary: r) (simp_all add: turn_filed)

lemma pool_step_filed: "filed_in_order r \<Longrightarrow> filed_in_order (pool_step x r)"
proof (cases x)
  case Request
  assume "filed_in_order r"
  then show ?thesis
    using turn_filed [of r] Request by (simp add: add_doctors_turn_def)
next
  case (Release e)
  assume "filed_in_order r"
  then show ?thesis using Release by (simp add: filed_in_order_def release_def)
next
  case Trigger
  assume "filed_in_order r"
  then show ?thesis using Trigger by (simp add: trigger_put_filed)
next
  case (AddDoctors k)
  assume "filed_in_order r"
  then show ?thesis using AddDoctors by (simp add: add_doctors_def loop_filed)
qed

lemma pool_run_filed: "filed_in_order r \<Longrightarrow> filed_in_order (pool_run xs r)"
  by (induction xs arbitrary: r) (simp_all add: pool_step_filed)

lemma Resource_new_filed: "Resource_new c = Inr r \<Longrightarrow> filed_in_order r"
  by (auto simp: Resource_new_def Resource_start_def filed_in_order_def split: if_splits)

lemma filed_sorted:
  assumes "filed_in_order r"
  shows "sorted_wrt (<) (succeeded r)" and "sorted_wrt (<) (put_queue r)"
    and "\<forall>x\<in>set (succeeded r). \<forall>y\<in>set (put_queue r). x < y"
    and "set (succeeded r) \<union> set (put_queue r) = {0 ..< next_request r}"
proof -
  have s: "sorted_wrt (<) (succeeded r @ put_queue r)"
    using assms by (simp add: filed_in_order_def)
  show "sorted_wrt (<) (succeeded r)" "sorted_wrt (<) (put_queue r)"
    "\<forall>x\<in>set (succeeded r). \<forall>y\<in>set (put_queue r). x < y"
    using s by (simp_all add: sorted_wrt_append)
  have "set (succeeded r @ put_queue r) = {0 ..< next_request r}"
    using assms by (simp add: filed_in_order_def)
  then show "set (succeeded r) \<union> set (put_queue r) = {0 ..< next_request r}"
    by simp
qed

lemma pool_run_next_mono: "next_request r \<le> next_request (pool_run xs r)"
proof (induction xs arbitrary: r)
  case Nil
  show ?case by simp
next
  case (Cons x xs)
  have "next_request r \<le> next_request (pool_step x r)"
    by (cases x) (simp_all add: request_def release_def add_doctors_def Let_def)
  with Cons.IH [of "pool_step x r"] show ?case by simp
qed

subsection \<open>add_doctors on a settled pool\<close>

lemma turn_free:
  assumes "put_queue r = []" and "count r < capacity r"
  shows "users (add_doctors_turn r) = users r @ [next_request r]"
    and "put_queue (add_doctors_turn r) = []"
    and "succeeded (add_doctors_turn r) = succeeded r @ [next_request r]"
  using assms
  by (simp_all add: add_doctors_turn_def request_def Let_def trigger_put_def count_def)

lemma turn_busy:
  assumes "capacity r \<le> count r"
  shows "users (add_doctors_turn r) = users r"
    and "put_queue (add_doctors_turn r) = put_queue r @ [next_request r]"
    and "succeeded (add_doctors_turn r) = succeeded r"
  using assms
  by (simp_all add: add_doctors_turn_def request_def Let_def trigger_put_def count_def
      split: list.splits)

lemma loop_settled:
  "settled r \<Longrightarrow>
     users (add_doctors_loop n r)
       = users r @ take (nat (capacity r - count r)) [next_request r ..< next_request r + n] \<and>
     put_queue (add_doctors_loop n r)
       = put_queue r @ drop (nat (capacity r - count r)) [next_request r ..< next_request r + n]"
proof (induction n arbitrary: r)
  case 0
  show ?case by simp
next
  case (Suc n)
  let ?r = "add_doctors_turn r"
  have u: "[next_request r ..< next_request r + Suc n]
          = next_request r # [next_request ?r ..< next_request ?r + n]"
    by (simp add: upt_conv_Cons)
  show ?case
  proof (cases "count r < capacity r")
    case True
    with Suc.prems have q: "put_queue r = []"
      by (simp add: settled_def)
    note t = turn_free [OF q True]
    have s: "settled ?r"
      using t by (simp add: settled_def)
    have m: "nat (capacity r - count r) = Suc (nat (capacity ?r - count ?r))"
      using True t by (simp add: count_def)
    show ?thesis
      using Suc.IH [OF s] t q by (simp only: add_doctors_loop.simps u m) simp
  next
    case False
    then have b: "capacity r \<le> count r" by simp
    note t = turn_busy [OF b]
    have s: "settled ?r"
      using t b by (simp add: settled_def count_def)
    have m: "nat (capacity r - count r) = 0" "nat (capacity ?r - count ?r) = 0"
      using b t by (simp_all add: count_def)
    show ?thesis
      using Suc.IH [OF s] t by (simp only: add_doctors_loop.simps u m) simp
  qed
qed

section \<open>Properties of the runs\<close>

lemmas DTA1_defs =
  DTA1_start_def Hospital_DTA1_init_def patient_arrives_def patient_granted_def
  patient_treated_def TREAT_PROBABILITY_def

lemmas uniform_defs =
  uniform_start_def Hospital_uniform_init_def uniform_patient_arrives_def
  uniform_patient_joined_def uniform_patient_granted_def uniform_patient_treated_def
  TREAT_PROBABILITY_def

lemma request_capacity [simp]: "capacity (snd (request r)) = capacity r"
  by (simp add: request_def Let_def)

lemma release_capacity [simp]: "capacity (release e r) = capacity r"
  by (simp add: release_def)

lemma DTA1_step_capacity:
  "capacity (doctor (hospital (DTA1_step e s))) = capacity (doctor (hospital s)) \<and>
   capacity (doctor (setup_hospital (DTA1_step e s))) = capacity (doctor (setup_hospital s))"
  by (cases e)
    (simp_all add: patient_arrives_def patient_granted_def patient_treated_def Let_def
      case_prod_beta split: process.splits)

lemma DTA1_run_capacity:
  "capacity (doctor (hospital (DTA1_run es s))) = capacity (doctor (hospital s)) \<and>
   capacity (doctor (setup_hospital (DTA1_run es s))) = capacity (doctor (setup_hospital s))"
  by (induction es arbitrary: s) (simp_all add: DTA1_step_capacity)

lemma uniform_step_capacity:
  "capacity (doctor (hospital (uniform_step e s))) = capacity (doctor (hospital s)) \<and>
   capacity (doctor (setup_hospital (uniform_step e s))) = capacity (doctor (setup_hospital s))"
  by (cases e)
    (simp_all add: uniform_patient_arrives_def uniform_patient_joined_def
      uniform_patient_granted_def uniform_patient_treated_def Let_def
      case_prod_beta split: process.splits)

lemma uniform_run_capacity:
  "capacity (doctor (hospital (uniform_run es s))) = capacity (doctor (hospital s)) \<and>
   capacity (doctor (setup_hospital (uniform_run es s))) = capacity (doctor (setup_hospital s))"
  by (induction es arbitrary: s) (simp_all add: uniform_step_capacity)

text \<open>The module-level hospital is touched by \<open>add_doctors\<close> alone.\<close>

lemma DTA1_step_hospital:
  "hospital (DTA1_step e s) =
     (if e = AddDoctor
      then (hospital s)\<lparr>doctor := add_doctors_turn (doctor (hospital s))\<rparr>
      else hospital s)"
  by (cases e)
    (simp_all add: patient_arrives_def patient_granted_def patient_treated_def Let_def
      case_prod_beta split: process.splits)

lemma uniform_step_hospital:
  "hospital (uniform_step e s) =
     (if e = AddDoctor
      then (hospital s)\<lparr>doctor := add_doctors_turn (doctor (hospital s))\<rparr>
      else hospital s)"
  by (cases e)
    (simp_all add: uniform_patient_arrives_def uniform_patient_joined_def
      uniform_patient_granted_def uniform_patient_treated_def Let_def
      case_prod_beta split: process.splits)

lemma DTA1_run_hospital:
  "doctor (hospital (DTA1_run es s)) = add_doctors_loop (add_doctor_turns es) (doctor (hospital s))"
proof (induction es arbitrary: s)
  case Nil
  show ?case by (simp add: add_doctor_turns_def)
next
  case (Cons e es)
  show ?case
    using Cons.IH [of "DTA1_step e s"]
    by (simp add: DTA1_step_hospital add_doctor_turns_def)
qed

lemma uniform_run_hospital:
  "doctor (hospital (uniform_run es s)) = add_doctors_loop (add_doctor_turns es) (doctor (hospital s))"
proof (induction es arbitrary: s)
  case Nil
  show ?case by (simp add: add_doctor_turns_def)
next
  case (Cons e es)
  show ?case
    using Cons.IH [of "uniform_step e s"]
    by (simp add: uniform_step_hospital add_doctor_turns_def)
qed

subsection \<open>The bookkeeping is kept by every step\<close>

lemma filter_update_length:
  "i < length xs \<Longrightarrow>
     length (filter P (xs[i := y])) + (if P (xs ! i) then 1 else 0)
       = length (filter P xs) + (if P y then 1 else 0)"
proof (induction xs arbitrary: i)
  case Nil
  then show ?case by simp
next
  case (Cons x xs)
  then show ?case by (cases i) auto
qed

lemma resume_tallies:
  assumes "i < length xs" and "\<not> granted (xs ! i)" and "xs ! i \<noteq> Treated"
    and "xs ! i \<noteq> LeftWithoutTreatment"
  shows "length (filter (\<lambda>p. p = Treated) (xs[i := y]))
           = length (filter (\<lambda>p. p = Treated) xs) + (if y = Treated then 1 else 0)"
    and "length (filter (\<lambda>p. p = LeftWithoutTreatment) (xs[i := y]))
           = length (filter (\<lambda>p. p = LeftWithoutTreatment) xs)
             + (if y = LeftWithoutTreatment then 1 else 0)"
    and "length (filter granted (xs[i := y]))
           = length (filter granted xs) + (if granted y then 1 else 0)"
  using assms filter_update_length [OF assms(1), of "\<lambda>p. p = Treated" y]
    filter_update_length [OF assms(1), of "\<lambda>p. p = LeftWithoutTreatment" y]
    filter_update_length [OF assms(1), of granted y]
  by simp_all

lemma finish_tallies:
  assumes "i < length xs" and "xs ! i = Treating e"
  shows "length (filter (\<lambda>p. p = Treated) (xs[i := Treated]))
           = Suc (length (filter (\<lambda>p. p = Treated) xs))"
    and "length (filter (\<lambda>p. p = LeftWithoutTreatment) (xs[i := Treated]))
           = length (filter (\<lambda>p. p = LeftWithoutTreatment) xs)"
    and "length (filter granted (xs[i := Treated])) = length (filter granted xs)"
  using assms filter_update_length [OF assms(1), of "\<lambda>p. p = Treated" Treated]
    filter_update_length [OF assms(1), of "\<lambda>p. p = LeftWithoutTreatment" Treated]
    filter_update_length [OF assms(1), of granted Treated]
  by simp_all

lemma patient_arrives_tallies: "tallies s \<Longrightarrow> tallies (patient_arrives s)"
  by (simp add: tallies_def number_of_def patient_arrives_def Let_def case_prod_beta)

lemma patient_granted_tallies: "tallies s \<Longrightarrow> tallies (patient_granted i u s)"
proof (cases "i < length (processes s)")
  case False
  assume "tallies s"
  with False show ?thesis by (simp add: patient_granted_def)
next
  case True
  assume t: "tallies s"
  show ?thesis
  proof (cases "processes s ! i")
    case (Waiting e a)
    then have n: "\<not> granted (processes s ! i)" "processes s ! i \<noteq> Treated"
      "processes s ! i \<noteq> LeftWithoutTreatment"
      by simp_all
    show ?thesis
      using t True Waiting
      by (simp add: tallies_def number_of_def patient_granted_def Let_def
          resume_tallies [OF True n])
  qed (use t True in \<open>simp_all add: patient_granted_def\<close>)
qed

lemma patient_treated_tallies: "tallies s \<Longrightarrow> tallies (patient_treated i s)"
proof (cases "i < length (processes s)")
  case False
  assume "tallies s"
  with False show ?thesis by (simp add: patient_treated_def)
next
  case True
  assume t: "tallies s"
  show ?thesis
  proof (cases "processes s ! i")
    case (Treating e)
    show ?thesis
      using t True Treating
      by (simp add: tallies_def number_of_def patient_treated_def Let_def
          finish_tallies [OF True Treating])
  qed (use t True in \<open>simp_all add: patient_treated_def\<close>)
qed

lemma DTA1_step_tallies: "tallies s \<Longrightarrow> tallies (DTA1_step e s)"
proof (cases e)
  case Arrive
  assume "tallies s"
  then show ?thesis using Arrive by (simp add: patient_arrives_tallies)
next
  case (Granted i u)
  assume "tallies s"
  then show ?thesis using Granted by (simp add: patient_granted_tallies)
next
  case (TreatmentDone i)
  assume "tallies s"
  then show ?thesis using TreatmentDone by (simp add: patient_treated_tallies)
qed (simp_all add: tallies_def number_of_def)

lemma DTA1_run_tallies: "tallies s \<Longrightarrow> tallies (DTA1_run es s)"
  by (induction es arbitrary: s) (simp_all add: DTA1_step_tallies)

lemma DTA1_start_tallies: "tallies (DTA1_start c t)"
  by (simp add: tallies_def number_of_def DTA1_start_def)

lemma uniform_patient_arrives_tallies: "tallies s \<Longrightarrow> tallies (uniform_patient_arrives s)"
  by (simp add: tallies_def number_of_def uniform_patient_arrives_def Let_def)

lemma uniform_patient_joined_tallies: "tallies s \<Longrightarrow> tallies (uniform_patient_joined i s)"
proof (cases "i < length (processes s)")
  case False
  assume "tallies s"
  with False show ?thesis by (simp add: uniform_patient_joined_def)
next
  case True
  assume t: "tallies s"
  show ?thesis
  proof (cases "processes s ! i")
    case (Joining a)
    then have n: "\<not> granted (processes s ! i)" "processes s ! i \<noteq> Treated"
      "processes s ! i \<noteq> LeftWithoutTreatment"
      by simp_all
    show ?thesis
      using t True Joining
      by (simp add: tallies_def number_of_def uniform_patient_joined_def Let_def
          case_prod_beta resume_tallies [OF True n])
  qed (use t True in \<open>simp_all add: uniform_patient_joined_def\<close>)
qed

lemma uniform_patient_granted_tallies: "tallies s \<Longrightarrow> tallies (uniform_patient_granted i u s)"
proof (cases "i < length (processes s)")
  case False
  assume "tallies s"
  with False show ?thesis by (simp add: uniform_patient_granted_def)
next
  case True
  assume t: "tallies s"
  show ?thesis
  proof (cases "processes s ! i")
    case (Waiting e a)
    then have n: "\<not> granted (processes s ! i)" "processes s ! i \<noteq> Treated"
      "processes s ! i \<noteq> LeftWithoutTreatment"
      by simp_all
    show ?thesis
      using t True Waiting
      by (simp add: tallies_def number_of_def uniform_patient_granted_def Let_def
          resume_tallies [OF True n])
  qed (use t True in \<open>simp_all add: uniform_patient_granted_def\<close>)
qed

lemma uniform_patient_treated_tallies: "tallies s \<Longrightarrow> tallies (uniform_patient_treated i s)"
proof (cases "i < length (processes s)")
  case False
  assume "tallies s"
  with False show ?thesis by (simp add: uniform_patient_treated_def)
next
  case True
  assume t: "tallies s"
  show ?thesis
  proof (cases "processes s ! i")
    case (Treating e)
    show ?thesis
      using t True Treating
      by (simp add: tallies_def number_of_def uniform_patient_treated_def Let_def
          finish_tallies [OF True Treating])
  qed (use t True in \<open>simp_all add: uniform_patient_treated_def\<close>)
qed

lemma uniform_step_tallies: "tallies s \<Longrightarrow> tallies (uniform_step e s)"
proof (cases e)
  case Arrive
  assume "tallies s"
  then show ?thesis using Arrive by (simp add: uniform_patient_arrives_tallies)
next
  case (Joined i)
  assume "tallies s"
  then show ?thesis using Joined by (simp add: uniform_patient_joined_tallies)
next
  case (Granted i u)
  assume "tallies s"
  then show ?thesis using Granted by (simp add: uniform_patient_granted_tallies)
next
  case (TreatmentDone i)
  assume "tallies s"
  then show ?thesis using TreatmentDone by (simp add: uniform_patient_treated_tallies)
qed (simp_all add: tallies_def number_of_def)

lemma uniform_run_tallies: "tallies s \<Longrightarrow> tallies (uniform_run es s)"
  by (induction es arbitrary: s) (simp_all add: uniform_step_tallies)

lemma uniform_start_tallies: "tallies (uniform_start c t)"
  by (simp add: tallies_def number_of_def uniform_start_def)

lemma all_terminal:
  "\<forall>p\<in>set xs. terminal p \<Longrightarrow>
     length xs = length (filter (\<lambda>p. p = Treated) xs)
               + length (filter (\<lambda>p. p = LeftWithoutTreatment) xs)"
proof (induction xs)
  case Nil
  show ?case by simp
next
  case (Cons x xs)
  then show ?case by (cases x) simp_all
qed


lemma DTA1_step_counter: "counter_kept s \<Longrightarrow> counter_kept (DTA1_step e s)"
  by (cases e)
    (auto simp: counter_kept_def patient_arrives_def patient_granted_def patient_treated_def
      Let_def case_prod_beta split: process.splits)

lemma DTA1_run_counter: "counter_kept s \<Longrightarrow> counter_kept (DTA1_run es s)"
  by (induction es arbitrary: s) (simp_all add: DTA1_step_counter)

lemma DTA1_start_counter: "counter_kept (DTA1_start c t)"
  by (simp add: counter_kept_def DTA1_start_def Hospital_DTA1_init_def)

lemma uniform_step_store: "store_kept s \<Longrightarrow> store_kept (uniform_step e s)"
proof (cases e)
  case Arrive
  assume "store_kept s"
  then show ?thesis
    using Arrive
    by (auto simp: store_kept_def uniform_patient_arrives_def Let_def sorted_append)
next
  case (Joined i)
  assume "store_kept s"
  then show ?thesis
    using Joined
    by (simp add: store_kept_def uniform_patient_joined_def Let_def case_prod_beta
        split: process.splits)
next
  case (Granted i u)
  assume "store_kept s"
  then show ?thesis
    using Granted
    by (auto simp: store_kept_def uniform_patient_granted_def Let_def sorted_append
        split: process.splits)
next
  case (TreatmentDone i)
  assume "store_kept s"
  then show ?thesis
    using TreatmentDone
    by (simp add: store_kept_def uniform_patient_treated_def Let_def split: process.splits)
qed (simp_all add: store_kept_def)

lemma uniform_run_store: "store_kept s \<Longrightarrow> store_kept (uniform_run es s)"
  by (induction es arbitrary: s) (simp_all add: uniform_step_store)

lemma uniform_start_store: "store_kept (uniform_start c t)"
  by (simp add: store_kept_def uniform_start_def Hospital_uniform_init_def)

lemma uniform_step_items:
  "take (length (items (queue (setup_hospital s)))) (items (queue (setup_hospital (uniform_step e s))))
     = items (queue (setup_hospital s))"
  by (cases e)
    (simp_all add: uniform_patient_arrives_def uniform_patient_joined_def
      uniform_patient_granted_def uniform_patient_treated_def Let_def case_prod_beta
      split: process.splits)

lemma uniform_step_sample:
  "length (items (queue (setup_hospital s))) = n \<Longrightarrow>
   queue_lengths (uniform_step e s) = queue_lengths s \<or>
   queue_lengths (uniform_step e s) = queue_lengths s @ [int n]"
  by (cases e)
    (auto simp: uniform_patient_arrives_def uniform_patient_joined_def
      uniform_patient_granted_def uniform_patient_treated_def Let_def case_prod_beta
      split: process.splits)

lemma waiting_count:
  "length (filter (\<lambda>p. \<not> granted p) xs) = length xs - length (filter granted xs)"
  using sum_length_filter_compl [of granted xs] by simp

lemma average_wait_time_count:
  "length (wait_times s) = n \<Longrightarrow>
   average_wait_time s
     = (if n = 0 then Infinity else Finite (sum_list (wait_times s) / real n))"
  by (auto simp: average_wait_time_def)

subsection \<open>Patients and grants\<close>

lemma filter_or_length:
  "\<forall>x\<in>set xs. \<not> (P x \<and> Q x) \<Longrightarrow>
     length (filter (\<lambda>x. P x \<or> Q x) xs) = length (filter P xs) + length (filter Q xs)"
  by (induction xs) auto

lemma pending_grant:
  "pending (r\<lparr>users := us, put_queue := q, succeeded := succeeded r @ [h]\<rparr>)
     = (\<lambda>p. pending r p \<or> holds h p)"
proof
  fix p
  show "pending (r\<lparr>users := us, put_queue := q, succeeded := succeeded r @ [h]\<rparr>) p
     = (pending r p \<or> holds h p)"
    by (cases p) (auto simp: pending_def)
qed

lemma pending_same: "succeeded r' = succeeded r \<Longrightarrow> pending r' = pending r"
  by (rule ext) (simp add: pending_def split: process.splits)

lemma holds_length_one:
  assumes "\<forall>e. length (filter (holds e) ps) \<le> 1" and "filter (holds h) ps \<noteq> []"
  shows "length (filter (holds h) ps) = 1"
proof -
  have "length (filter (holds h) ps) \<noteq> 0"
    using assms(2) by simp
  moreover have "length (filter (holds h) ps) \<le> 1"
    using assms(1) by blast
  ultimately show ?thesis by linarith
qed

lemma linked_trigger: "linked ps r \<Longrightarrow> linked ps (trigger_put r)"
proof (cases "put_queue r")
  case Nil
  assume "linked ps r"
  with Nil show ?thesis by (simp add: trigger_put_def)
next
  case (Cons h waiting)
  assume l: "linked ps r"
  show ?thesis
  proof (cases "count r < capacity r")
    case False
    with l Cons show ?thesis by (simp add: trigger_put_def)
  next
    case True
    let ?r = "r\<lparr>users := users r @ [h], put_queue := waiting, succeeded := succeeded r @ [h]\<rparr>"
    have t: "trigger_put r = ?r"
      using Cons True by (simp add: trigger_put_def)
    have f: "filed_in_order r"
      using l by (simp add: linked_def)
    have "distinct (succeeded r @ put_queue r)"
      using f by (simp add: filed_in_order_def)
    then have hn: "h \<notin> set (succeeded r)"
      using Cons by auto
    have one: "length (filter (holds h) ps) = 1"
      using l Cons holds_length_one [of ps h] by (simp add: linked_def)
    have dis: "\<forall>p\<in>set ps. \<not> (pending r p \<and> holds h p)"
    proof
      fix p
      assume "p \<in> set ps"
      show "\<not> (pending r p \<and> holds h p)"
        using hn by (cases p) (auto simp: pending_def)
    qed
    have "length (filter (pending ?r) ps)
            = length (filter (\<lambda>p. pending r p \<or> holds h p) ps)"
      by (simp add: pending_grant)
    also have "\<dots> = length (filter (pending r) ps) + 1"
      using filter_or_length [OF dis] one by simp
    finally have e: "length (filter (pending ?r) ps) = length (filter (pending r) ps) + 1" .
    have f': "filed_in_order ?r"
      using trigger_put_filed [OF f] t by simp
    show ?thesis
      unfolding t using l e f' Cons by (simp add: linked_def)
  qed
qed

lemma linked_same:
  assumes "succeeded r' = succeeded r" and "put_queue r' = put_queue r"
    and "next_request r' = next_request r" and "linked ps r"
  shows "linked ps r'"
proof -
  have "pending r' = pending r"
    using assms(1) by (rule pending_same)
  then show ?thesis
    using assms by (simp add: linked_def filed_in_order_def)
qed

lemma linked_release: "linked ps r \<Longrightarrow> linked ps (release e r)"
  by (rule linked_same [of _ r]) (simp_all add: release_def)


lemma pending_file:
  "pending (r\<lparr>put_queue := q, next_request := n\<rparr>) = pending r"
  by (rule pending_same) simp

lemma filed_fresh:
  assumes "filed_in_order r"
  shows "next_request r \<notin> set (succeeded r)" and "next_request r \<notin> set (put_queue r)"
proof -
  have "set (succeeded r @ put_queue r) = {0 ..< next_request r}"
    using assms by (simp add: filed_in_order_def)
  then show "next_request r \<notin> set (succeeded r)" "next_request r \<notin> set (put_queue r)"
    by auto
qed

lemma filed_file:
  "filed_in_order r \<Longrightarrow>
     filed_in_order (r\<lparr>put_queue := put_queue r @ [next_request r],
                       next_request := Suc (next_request r)\<rparr>)"
  by (simp add: filed_in_order_def flip: append_assoc)

lemma linked_arrival:
  assumes "linked ps r"
  shows "linked (ps @ [Waiting (next_request r) a])
           (r\<lparr>put_queue := put_queue r @ [next_request r],
              next_request := Suc (next_request r)\<rparr>)"
proof -
  let ?e = "next_request r"
  have f: "filed_in_order r"
    using assms by (simp add: linked_def)
  have none: "filter (holds ?e) ps = []"
    using assms by (simp add: linked_def)
  have np: "\<not> pending r (Waiting ?e a)"
    using filed_fresh(1) [OF f] by (simp add: pending_def)
  have b: "\<forall>e. length (filter (holds e) (ps @ [Waiting ?e a])) \<le> 1"
  proof
    fix e
    show "length (filter (holds e) (ps @ [Waiting ?e a])) \<le> 1"
      using assms none by (cases "e = ?e") (simp_all add: linked_def)
  qed
  have c: "\<forall>e\<in>set (put_queue r @ [?e]). filter (holds e) (ps @ [Waiting ?e a]) \<noteq> []"
    using assms by (auto simp: linked_def)
  have d: "\<forall>e. Suc ?e \<le> e \<longrightarrow> filter (holds e) (ps @ [Waiting ?e a]) = []"
    using assms by (auto simp: linked_def)
  show ?thesis
    using assms b c d np filed_file [OF f]
    by (simp add: linked_def pending_file)
qed

lemma linked_joining: "linked ps r \<Longrightarrow> linked (ps @ [Joining a]) r"
  by (simp add: linked_def pending_def)

lemma holds_update:
  assumes "i < length ps" and "\<And>e. \<not> holds e q"
  shows "length (filter (holds e) (ps[i := q])) \<le> length (filter (holds e) ps)"
  using filter_update_length [OF assms(1), of "holds e" q] assms(2) [of e]
  by (simp split: if_splits)

lemma linked_joined:
  assumes "linked ps r" and "i < length ps" and "ps ! i = Joining a"
  shows "linked (ps[i := Waiting (next_request r) a'])
           (r\<lparr>put_queue := put_queue r @ [next_request r],
              next_request := Suc (next_request r)\<rparr>)"
proof -
  let ?e = "next_request r" and ?ps = "ps[i := Waiting (next_request r) a']"
  have f: "filed_in_order r"
    using assms(1) by (simp add: linked_def)
  have u: "length (filter P ?ps) + (if P (Joining a) then 1 else 0)
             = length (filter P ps) + (if P (Waiting ?e a') then 1 else 0)" for P
    using filter_update_length [OF assms(2), of P "Waiting ?e a'"] assms(3) by simp
  have none: "filter (holds ?e) ps = []"
    using assms(1) by (simp add: linked_def)
  have h: "length (filter (holds e) ?ps)
             = length (filter (holds e) ps) + (if e = ?e then 1 else 0)" for e
    using u [of "holds e"] by auto
  have np: "\<not> pending r (Waiting ?e a')" "\<not> pending r (Joining a)"
    using filed_fresh(1) [OF f] by (simp_all add: pending_def)
  have b: "\<forall>e. length (filter (holds e) ?ps) \<le> 1"
  proof
    fix e
    show "length (filter (holds e) ?ps) \<le> 1"
      using assms(1) none h [of e] by (cases "e = ?e") (simp_all add: linked_def)
  qed
  have c: "\<forall>e\<in>set (put_queue r @ [?e]). filter (holds e) ?ps \<noteq> []"
  proof
    fix e
    assume "e \<in> set (put_queue r @ [?e])"
    then have "e = ?e \<or> filter (holds e) ps \<noteq> []"
      using assms(1) by (auto simp: linked_def)
    then have "length (filter (holds e) ?ps) \<noteq> 0"
      using h [of e] by auto
    then show "filter (holds e) ?ps \<noteq> []"
      by simp
  qed
  have d: "\<forall>e. Suc ?e \<le> e \<longrightarrow> filter (holds e) ?ps = []"
  proof (intro allI impI)
    fix e
    assume "Suc ?e \<le> e"
    then have "filter (holds e) ps = []" "e \<noteq> ?e"
      using assms(1) by (simp_all add: linked_def)
    then have "length (filter (holds e) ?ps) = 0"
      using h [of e] by simp
    then show "filter (holds e) ?ps = []"
      by simp
  qed
  have g: "length (filter granted ?ps) = length (filter granted ps)"
    "length (filter (pending r) ?ps) = length (filter (pending r) ps)"
    using u [of granted] u [of "pending r"] np by simp_all
  show ?thesis
    using assms(1) b c d g filed_file [OF f]
    by (simp add: linked_def pending_file)
qed

lemma linked_resumed:
  assumes "linked ps r" and "i < length ps" and "ps ! i = Waiting e a"
    and "e \<in> set (succeeded r)" and "granted q"
  shows "linked (ps[i := q]) r"
proof -
  let ?ps = "ps[i := q]"
  have f: "filed_in_order r"
    using assms(1) by (simp add: linked_def)
  have nq: "\<And>x. \<not> holds x q" "\<not> pending r q"
    using assms(5) by (cases q; simp add: pending_def)+
  have "distinct (succeeded r @ put_queue r)"
    using f by (simp add: filed_in_order_def)
  then have en: "e \<notin> set (put_queue r)"
    using assms(4) by auto
  have h: "length (filter (holds x) ?ps) + (if x = e then 1 else 0)
             = length (filter (holds x) ps)" for x
    using filter_update_length [OF assms(2), of "holds x" q] assms(3) nq(1) [of x]
    by (cases "x = e") simp_all
  have b: "\<forall>x. length (filter (holds x) ?ps) \<le> 1"
  proof
    fix x
    have "length (filter (holds x) ps) \<le> 1"
      using assms(1) by (simp add: linked_def)
    then show "length (filter (holds x) ?ps) \<le> 1"
      using h [of x] by (simp split: if_splits)
  qed
  have c: "\<forall>x\<in>set (put_queue r). filter (holds x) ?ps \<noteq> []"
  proof
    fix x
    assume x: "x \<in> set (put_queue r)"
    then have "x \<noteq> e" using en by auto
    moreover have "filter (holds x) ps \<noteq> []"
      using assms(1) x by (simp add: linked_def)
    ultimately have "length (filter (holds x) ?ps) \<noteq> 0"
      using h [of x] by simp
    then show "filter (holds x) ?ps \<noteq> []" by simp
  qed
  have d: "\<forall>x. next_request r \<le> x \<longrightarrow> filter (holds x) ?ps = []"
  proof (intro allI impI)
    fix x
    assume "next_request r \<le> x"
    then have "filter (holds x) ps = []"
      using assms(1) by (simp add: linked_def)
    then have "length (filter (holds x) ?ps) = 0"
      using h [of x] by (simp split: if_splits)
    then show "filter (holds x) ?ps = []" by simp
  qed
  have g: "length (filter granted ?ps) = Suc (length (filter granted ps))"
    using filter_update_length [OF assms(2), of granted q] assms(3,5) by simp
  have p: "Suc (length (filter (pending r) ?ps)) = length (filter (pending r) ps)"
    using filter_update_length [OF assms(2), of "pending r" q] assms(3,4) nq(2)
    by (simp add: pending_def)
  show ?thesis
    using assms(1) b c d g p by (simp add: linked_def)
qed

lemma linked_finished:
  assumes "linked ps r" and "i < length ps" and "ps ! i = Treating e"
  shows "linked (ps[i := Treated]) r"
proof -
  let ?ps = "ps[i := Treated]"
  have u: "length (filter P ?ps) = length (filter P ps)" if "P Treated = P (Treating e)" for P
    using filter_update_length [OF assms(2), of P Treated] assms(3) that by simp
  have h: "length (filter (holds x) ?ps) = length (filter (holds x) ps)" for x
    by (rule u) simp
  have h0: "filter (holds x) ?ps = [] \<longleftrightarrow> filter (holds x) ps = []" for x
    using h [of x] by (metis length_0_conv)
  have g: "length (filter granted ?ps) = length (filter granted ps)"
    by (rule u) simp
  have p: "length (filter (pending r) ?ps) = length (filter (pending r) ps)"
    by (rule u) (simp add: pending_def)
  show ?thesis
    using assms(1) g p by (simp add: linked_def h h0)
qed

lemma request_parts:
  "fst (request r) = next_request r"
  "snd (request r)
     = trigger_put (r\<lparr>put_queue := put_queue r @ [next_request r],
                       next_request := Suc (next_request r)\<rparr>)"
  by (simp_all add: request_def Let_def)

lemma patient_arrives_linked: "linked_run s \<Longrightarrow> linked_run (patient_arrives s)"
proof -
  assume "linked_run s"
  then have "linked (processes s) (doctor (setup_hospital s))"
    by (simp add: linked_run_def)
  then have "linked (processes s @ [Waiting (next_request (doctor (setup_hospital s))) (now s)])
               (snd (request (doctor (setup_hospital s))))"
    unfolding request_parts by (intro linked_trigger linked_arrival)
  then show ?thesis
    by (simp add: linked_run_def patient_arrives_def Let_def case_prod_beta request_parts(1))
qed

lemma patient_granted_linked: "linked_run s \<Longrightarrow> linked_run (patient_granted i u s)"
proof (cases "i < length (processes s)")
  case False
  assume "linked_run s"
  with False show ?thesis by (simp add: patient_granted_def)
next
  case True
  assume l: "linked_run s"
  show ?thesis
  proof (cases "processes s ! i")
    case (Waiting e a)
    show ?thesis
    proof (cases "e \<in> set (succeeded (doctor (setup_hospital s)))")
      case False
      with l True Waiting show ?thesis by (simp add: patient_granted_def)
    next
      case e: True
      have l0: "linked (processes s) (doctor (setup_hospital s))"
        using l by (simp add: linked_run_def)
      have a: "linked ((processes s)[i := Treating e]) (doctor (setup_hospital s))"
        by (rule linked_resumed [OF l0 True Waiting e]) simp
      have b: "linked ((processes s)[i := LeftWithoutTreatment])
                 (release e (doctor (setup_hospital s)))"
        by (rule linked_release, rule linked_resumed [OF l0 True Waiting e]) simp
      show ?thesis
        using a b True Waiting e
        by (simp add: linked_run_def patient_granted_def Let_def)
    qed
  qed (use l True in \<open>simp_all add: patient_granted_def\<close>)
qed

lemma patient_treated_linked: "linked_run s \<Longrightarrow> linked_run (patient_treated i s)"
proof (cases "i < length (processes s)")
  case False
  assume "linked_run s"
  with False show ?thesis by (simp add: patient_treated_def)
next
  case True
  assume l: "linked_run s"
  show ?thesis
  proof (cases "processes s ! i")
    case (Treating e)
    have l0: "linked (processes s) (doctor (setup_hospital s))"
      using l by (simp add: linked_run_def)
    have "linked ((processes s)[i := Treated]) (release e (doctor (setup_hospital s)))"
      by (rule linked_release, rule linked_finished [OF l0 True Treating])
    then show ?thesis
      using True Treating by (simp add: linked_run_def patient_treated_def Let_def)
  qed (use l True in \<open>simp_all add: patient_treated_def\<close>)
qed

lemma DTA1_step_linked: "linked_run s \<Longrightarrow> linked_run (DTA1_step e s)"
proof (cases e)
  case Arrive
  assume "linked_run s"
  then show ?thesis using Arrive by (simp add: patient_arrives_linked)
next
  case (Granted i u)
  assume "linked_run s"
  then show ?thesis using Granted by (simp add: patient_granted_linked)
next
  case (TreatmentDone i)
  assume "linked_run s"
  then show ?thesis using TreatmentDone by (simp add: patient_treated_linked)
next
  case Callback
  assume "linked_run s"
  then show ?thesis using Callback by (simp add: linked_run_def linked_trigger)
qed (simp_all add: linked_run_def)

lemma DTA1_run_linked: "linked_run s \<Longrightarrow> linked_run (DTA1_run es s)"
  by (induction es arbitrary: s) (simp_all add: DTA1_step_linked)

lemma Resource_start_linked: "linked [] (Resource_start c)"
  by (simp add: linked_def filed_in_order_def Resource_start_def)

lemma DTA1_start_linked: "linked_run (DTA1_start c t)"
  by (simp add: linked_run_def DTA1_start_def Hospital_DTA1_init_def Resource_start_linked)

lemma uniform_patient_arrives_linked: "linked_run s \<Longrightarrow> linked_run (uniform_patient_arrives s)"
  by (simp add: linked_run_def uniform_patient_arrives_def Let_def linked_joining)

lemma uniform_patient_joined_linked: "linked_run s \<Longrightarrow> linked_run (uniform_patient_joined i s)"
proof (cases "i < length (processes s)")
  case False
  assume "linked_run s"
  with False show ?thesis by (simp add: uniform_patient_joined_def)
next
  case True
  assume l: "linked_run s"
  show ?thesis
  proof (cases "processes s ! i")
    case (Joining a)
    have l0: "linked (processes s) (doctor (setup_hospital s))"
      using l by (simp add: linked_run_def)
    have "linked ((processes s)[i := Waiting (next_request (doctor (setup_hospital s))) a])
               (snd (request (doctor (setup_hospital s))))"
      unfolding request_parts
      by (rule linked_trigger, rule linked_joined [OF l0 True Joining])
    then show ?thesis
      using True Joining
      by (simp add: linked_run_def uniform_patient_joined_def Let_def case_prod_beta
          request_parts(1))
  qed (use l True in \<open>simp_all add: uniform_patient_joined_def\<close>)
qed

lemma uniform_patient_granted_linked:
  "linked_run s \<Longrightarrow> linked_run (uniform_patient_granted i u s)"
proof (cases "i < length (processes s)")
  case False
  assume "linked_run s"
  with False show ?thesis by (simp add: uniform_patient_granted_def)
next
  case True
  assume l: "linked_run s"
  show ?thesis
  proof (cases "processes s ! i")
    case (Waiting e a)
    show ?thesis
    proof (cases "e \<in> set (succeeded (doctor (setup_hospital s)))")
      case False
      with l True Waiting show ?thesis by (simp add: uniform_patient_granted_def)
    next
      case e: True
      have l0: "linked (processes s) (doctor (setup_hospital s))"
        using l by (simp add: linked_run_def)
      have a: "linked ((processes s)[i := Treating e]) (doctor (setup_hospital s))"
        by (rule linked_resumed [OF l0 True Waiting e]) simp
      have b: "linked ((processes s)[i := LeftWithoutTreatment])
                 (release e (doctor (setup_hospital s)))"
        by (rule linked_release, rule linked_resumed [OF l0 True Waiting e]) simp
      show ?thesis
        using a b True Waiting e
        by (simp add: linked_run_def uniform_patient_granted_def Let_def)
    qed
  qed (use l True in \<open>simp_all add: uniform_patient_granted_def\<close>)
qed

lemma uniform_patient_treated_linked:
  "linked_run s \<Longrightarrow> linked_run (uniform_patient_treated i s)"
proof (cases "i < length (processes s)")
  case False
  assume "linked_run s"
  with False show ?thesis by (simp add: uniform_patient_treated_def)
next
  case True
  assume l: "linked_run s"
  show ?thesis
  proof (cases "processes s ! i")
    case (Treating e)
    have l0: "linked (processes s) (doctor (setup_hospital s))"
      using l by (simp add: linked_run_def)
    have "linked ((processes s)[i := Treated]) (release e (doctor (setup_hospital s)))"
      by (rule linked_release, rule linked_finished [OF l0 True Treating])
    then show ?thesis
      using True Treating by (simp add: linked_run_def uniform_patient_treated_def Let_def)
  qed (use l True in \<open>simp_all add: uniform_patient_treated_def\<close>)
qed

lemma uniform_step_linked: "linked_run s \<Longrightarrow> linked_run (uniform_step e s)"
proof (cases e)
  case Arrive
  assume "linked_run s"
  then show ?thesis using Arrive by (simp add: uniform_patient_arrives_linked)
next
  case (Joined i)
  assume "linked_run s"
  then show ?thesis using Joined by (simp add: uniform_patient_joined_linked)
next
  case (Granted i u)
  assume "linked_run s"
  then show ?thesis using Granted by (simp add: uniform_patient_granted_linked)
next
  case (TreatmentDone i)
  assume "linked_run s"
  then show ?thesis using TreatmentDone by (simp add: uniform_patient_treated_linked)
next
  case Callback
  assume "linked_run s"
  then show ?thesis using Callback by (simp add: linked_run_def linked_trigger)
qed (simp_all add: linked_run_def)

lemma uniform_run_linked: "linked_run s \<Longrightarrow> linked_run (uniform_run es s)"
  by (induction es arbitrary: s) (simp_all add: uniform_step_linked)

lemma uniform_start_linked: "linked_run (uniform_start c t)"
  by (simp add: linked_run_def uniform_start_def Hospital_uniform_init_def Resource_start_linked)

lemma request_next [simp]: "next_request (snd (request r)) = Suc (next_request r)"
  by (simp add: request_def Let_def)

lemma release_next [simp]: "next_request (release e r) = next_request r"
  by (simp add: release_def)

lemma joining_update:
  assumes "i < length xs" and "\<not> joining (xs ! i)" and "\<not> joining y"
  shows "length (filter joining (xs[i := y])) = length (filter joining xs)"
  using filter_update_length [OF assms(1), of joining y] assms(2,3) by simp

lemma joined_update:
  assumes "i < length xs" and "xs ! i = Joining a" and "\<not> joining y"
  shows "Suc (length (filter joining (xs[i := y]))) = length (filter joining xs)"
  using filter_update_length [OF assms(1), of joining y] assms(2,3) by simp

lemma patient_granted_not_due: "\<not> due i s \<Longrightarrow> patient_granted i u s = s"
  by (auto simp: patient_granted_def due_def pending_def split: process.splits)

lemma uniform_patient_granted_not_due: "\<not> due i s \<Longrightarrow> uniform_patient_granted i u s = s"
  by (auto simp: uniform_patient_granted_def due_def pending_def split: process.splits)

lemma DTA1_step_filed: "requests_filed s \<and> number_of joining s = 0 \<Longrightarrow>
    requests_filed (DTA1_step e s) \<and> number_of joining (DTA1_step e s) = 0"
proof (cases e)
  case Arrive
  assume "requests_filed s \<and> number_of joining s = 0"
  then show ?thesis
    using Arrive
    by (auto simp: requests_filed_def number_of_def patient_arrives_def Let_def case_prod_beta)
next
  case (Granted i u)
  assume a: "requests_filed s \<and> number_of joining s = 0"
  show ?thesis
  proof (cases "due i s")
    case False
    with a Granted show ?thesis
      by (simp add: patient_granted_not_due)
  next
    case True
    then obtain e' a' where w: "i < length (processes s)" "processes s ! i = Waiting e' a'"
      "e' \<in> set (succeeded (doctor (setup_hospital s)))"
      by (auto simp: due_def pending_def split: process.splits)
    have "\<not> joining (processes s ! i)"
      using w by simp
    then have "length (filter joining ((processes s)[i := y])) = length (filter joining (processes s))"
      if "\<not> joining y" for y
      using joining_update [OF w(1)] that by simp
    then show ?thesis
      using a Granted w
      by (auto simp: requests_filed_def number_of_def patient_granted_def Let_def)
  qed
next
  case (TreatmentDone i)
  assume a: "requests_filed s \<and> number_of joining s = 0"
  show ?thesis
  proof (cases "i < length (processes s)")
    case False
    with a TreatmentDone show ?thesis by (simp add: patient_treated_def)
  next
    case True
    show ?thesis
    proof (cases "processes s ! i")
      case (Treating e')
      then have "length (filter joining ((processes s)[i := Treated]))
                   = length (filter joining (processes s))"
        using joining_update [OF True, of Treated] by simp
      then show ?thesis
        using a TreatmentDone True Treating
        by (auto simp: requests_filed_def number_of_def patient_treated_def Let_def)
    qed (use a TreatmentDone True in \<open>simp_all add: patient_treated_def\<close>)
  qed
qed (auto simp: requests_filed_def number_of_def)

lemma DTA1_run_filed: "requests_filed s \<and> number_of joining s = 0 \<Longrightarrow>
    requests_filed (DTA1_run es s) \<and> number_of joining (DTA1_run es s) = 0"
proof (induction es arbitrary: s)
  case Nil
  then show ?case by simp
next
  case (Cons e es)
  from Cons.IH [OF DTA1_step_filed [OF Cons.prems]] show ?case by simp
qed

lemma DTA1_start_filed:
  "requests_filed (DTA1_start c t) \<and> number_of joining (DTA1_start c t) = 0"
  by (simp add: requests_filed_def number_of_def DTA1_start_def Hospital_DTA1_init_def
      Resource_start_def)

lemma uniform_step_filed: "requests_filed s \<Longrightarrow> requests_filed (uniform_step e s)"
proof (cases e)
  case Arrive
  assume "requests_filed s"
  then show ?thesis
    using Arrive
    by (simp add: requests_filed_def number_of_def uniform_patient_arrives_def Let_def)
next
  case (Joined i)
  assume a: "requests_filed s"
  show ?thesis
  proof (cases "i < length (processes s)")
    case False
    with a Joined show ?thesis by (simp add: uniform_patient_joined_def)
  next
    case True
    show ?thesis
    proof (cases "processes s ! i")
      case (Joining a')
      have "length (filter joining (processes s))
              = Suc (length (filter joining
                  ((processes s)[i := Waiting (fst (request (doctor (setup_hospital s)))) a'])))"
        using joined_update [OF True Joining,
            of "Waiting (fst (request (doctor (setup_hospital s)))) a'"]
        by simp
      then show ?thesis
        using a Joined True Joining
        by (simp add: requests_filed_def number_of_def uniform_patient_joined_def Let_def
            case_prod_beta)
    qed (use a Joined True in \<open>simp_all add: uniform_patient_joined_def\<close>)
  qed
next
  case (Granted i u)
  assume a: "requests_filed s"
  show ?thesis
  proof (cases "due i s")
    case False
    with a Granted show ?thesis
      by (simp add: uniform_patient_granted_not_due)
  next
    case True
    then obtain e' a' where w: "i < length (processes s)" "processes s ! i = Waiting e' a'"
      "e' \<in> set (succeeded (doctor (setup_hospital s)))"
      by (auto simp: due_def pending_def split: process.splits)
    have "\<not> joining (processes s ! i)"
      using w by simp
    then have "length (filter joining ((processes s)[i := y])) = length (filter joining (processes s))"
      if "\<not> joining y" for y
      using joining_update [OF w(1)] that by simp
    then show ?thesis
      using a Granted w
      by (simp add: requests_filed_def number_of_def uniform_patient_granted_def Let_def)
  qed
next
  case (TreatmentDone i)
  assume a: "requests_filed s"
  show ?thesis
  proof (cases "i < length (processes s)")
    case False
    with a TreatmentDone show ?thesis by (simp add: uniform_patient_treated_def)
  next
    case True
    show ?thesis
    proof (cases "processes s ! i")
      case (Treating e')
      then have "length (filter joining ((processes s)[i := Treated]))
                   = length (filter joining (processes s))"
        using joining_update [OF True, of Treated] by simp
      then show ?thesis
        using a TreatmentDone True Treating
        by (simp add: requests_filed_def number_of_def uniform_patient_treated_def Let_def)
    qed (use a TreatmentDone True in \<open>simp_all add: uniform_patient_treated_def\<close>)
  qed
qed (simp_all add: requests_filed_def number_of_def)

lemma uniform_run_filed: "requests_filed s \<Longrightarrow> requests_filed (uniform_run es s)"
  by (induction es arbitrary: s) (simp_all add: uniform_step_filed)

lemma uniform_start_filed: "requests_filed (uniform_start c t)"
  by (simp add: requests_filed_def number_of_def uniform_start_def Hospital_uniform_init_def
      Resource_start_def)

lemma patient_arrives_sample:
  "queue_lengths (patient_arrives s) = queue_lengths s @ [queue_length (setup_hospital s) + 1] \<and>
   next_request (doctor (setup_hospital (patient_arrives s)))
     = Suc (next_request (doctor (setup_hospital s)))"
  by (simp add: patient_arrives_def Let_def case_prod_beta)

lemma patient_granted_sample:
  "queue_lengths (patient_granted i u s)
     = (if due i s then queue_lengths s @ [queue_length (setup_hospital s) - 1]
        else queue_lengths s)"
  by (simp add: patient_granted_def due_def pending_def Let_def split: process.splits)

lemma DTA1_step_no_sample:
  "queue_lengths (DTA1_step (Advance t) s) = queue_lengths s \<and>
   queue_lengths (DTA1_step (Joined i) s) = queue_lengths s \<and>
   queue_lengths (DTA1_step (TreatmentDone i) s) = queue_lengths s \<and>
   queue_lengths (DTA1_step Callback s) = queue_lengths s \<and>
   queue_lengths (DTA1_step AddDoctor s) = queue_lengths s"
  by (simp add: patient_treated_def Let_def split: process.splits)

lemma uniform_patient_arrives_sample:
  "queue_lengths (uniform_patient_arrives s)
     = queue_lengths s @ [int (length (items (queue (setup_hospital s))))] \<and>
   items (queue (setup_hospital (uniform_patient_arrives s)))
     = items (queue (setup_hospital s)) @ [Suc (length (processes s))]"
  by (simp add: uniform_patient_arrives_def Let_def)

lemma uniform_patient_granted_sample:
  "queue_lengths (uniform_patient_granted i u s)
     = (if due i s then queue_lengths s @ [int (length (items (queue (setup_hospital s))))]
        else queue_lengths s)"
  by (simp add: uniform_patient_granted_def due_def pending_def Let_def split: process.splits)

lemma uniform_step_no_sample:
  "queue_lengths (uniform_step (Advance t) s) = queue_lengths s \<and>
   queue_lengths (uniform_step (Joined i) s) = queue_lengths s \<and>
   queue_lengths (uniform_step (TreatmentDone i) s) = queue_lengths s \<and>
   queue_lengths (uniform_step Callback s) = queue_lengths s \<and>
   queue_lengths (uniform_step AddDoctor s) = queue_lengths s"
  by (simp add: uniform_patient_treated_def uniform_patient_joined_def Let_def case_prod_beta
      split: process.splits)

lemma linked_count:
  "linked_run s \<Longrightarrow>
     length (succeeded (doctor (setup_hospital s)))
       = number_of granted s + number_of (pending (doctor (setup_hospital s))) s"
  by (simp add: linked_run_def linked_def number_of_def)

section \<open>The claims about the pool\<close>

text \<open>
  C1.  The claim: when the pool is fully occupied and patients wait, \<open>add_doctors\<close> with
  \<open>k\<close> doctors raises the capacity by \<open>k\<close> and grants the \<open>k\<close> oldest waiting requests at
  once.  The code does neither.  Evaluated on a pool of capacity 2 with holders 0 and 1 and
  the patients' requests 2, 3 and 4 waiting (the pool after five requests), \<open>add_doctors\<close>
  with 2 doctors leaves the capacity at 2, grants nothing, and puts two further requests
  behind the waiting patients.  In the scripts the call is made on the module-level
  \<open>hospital\<close>, which no patient uses: with two patients in treatment and three waiting at
  time 200, the two turns of \<open>add_doctors\<close> take the two free slots of that other pool and
  leave the patients' pool, and the three waiting patients, as they were.
\<close>

theorem add_doctors_full_pool_example:
  "pool_run [Request, Request, Request, Request, Request] (Resource_start 2)
     = \<lparr>capacity = 2, users = [0, 1], put_queue = [2, 3, 4], succeeded = [0, 1],
        next_request = 5\<rparr> \<and>
   add_doctors \<lparr>capacity = 2, users = [0, 1], put_queue = [2, 3, 4], succeeded = [0, 1],
        next_request = 5\<rparr> 2
     = \<lparr>capacity = 2, users = [0, 1], put_queue = [2, 3, 4, 5, 6], succeeded = [0, 1],
        next_request = 7\<rparr> \<and>
   doctor (setup_hospital (DTA1_run [Arrive, Arrive, Arrive, Arrive, Granted 0 (1 / 2),
       Granted 1 (1 / 2), Advance 3, Arrive, Advance 200, AddDoctor, AddDoctor]
       (DTA1_start 2 5)))
     = \<lparr>capacity = 2, users = [0, 1], put_queue = [2, 3, 4], succeeded = [0, 1],
        next_request = 5\<rparr> \<and>
   doctor (hospital (DTA1_run [Arrive, Arrive, Arrive, Arrive, Granted 0 (1 / 2),
       Granted 1 (1 / 2), Advance 3, Arrive, Advance 200, AddDoctor, AddDoctor]
       (DTA1_start 2 5)))
     = \<lparr>capacity = 2, users = [0, 1], put_queue = [], succeeded = [0, 1],
        next_request = 2\<rparr> \<and>
   processes (DTA1_run [Arrive, Arrive, Arrive, Arrive, Granted 0 (1 / 2),
       Granted 1 (1 / 2), Advance 3, Arrive, Advance 200, AddDoctor, AddDoctor]
       (DTA1_start 2 5))
     = [Treating 0, Treating 1, Waiting 2 0, Waiting 3 0, Waiting 4 3]"
  by (simp add: DTA1_defs pool_defs eval_nat_numeral)

text \<open>
  C2, as claimed, fails.  The requests that \<open>add_doctors\<close> files are not only enqueued:
  a request is granted at once when a slot is free and nobody waits.  This is so at the
  scripts' own call, which is made on the module-level pool that no patient has touched:
  both requests become holders and none waits.
\<close>

theorem add_doctors_granted_at_once_example:
  "Resource_new 2 = Inr (Resource_start 2) \<and>
   add_doctors (Resource_start 2) 2
     = \<lparr>capacity = 2, users = [0, 1], put_queue = [], succeeded = [0, 1], next_request = 2\<rparr> \<and>
   put_queue (add_doctors (Resource_start 2) 2) = [] \<and>
   doctor (hospital (DTA1_start 2 5)) = Resource_start 2 \<and>
   doctor (hospital (uniform_start 2 5)) = Resource_start 2"
  by (simp add: pool_defs DTA1_defs uniform_defs eval_nat_numeral)

text \<open>
  C2, amended.  \<open>add_doctors\<close> leaves the capacity of the pool as it was, and every
  request it files stays a holder or a waiter: holders followed by waiters are the earlier
  ones followed by the new ones.  On a settled pool the first new requests take the free
  slots, as many as there are, and the others wait behind the earlier waiters; on a full
  pool all of them wait and nothing is granted.  In every run of either
  script both pools keep the capacity they were made with, and of the requests that
  \<open>add_doctors\<close> has filed on the module-level pool the first \<open>capacity\<close> are holders and the
  others wait, none of them released.
\<close>

theorem add_doctors_capacity_unchanged:
  "capacity (add_doctors r k) = capacity r \<and>
   users (add_doctors r k) @ put_queue (add_doctors r k)
     = users r @ put_queue r @ [next_request r ..< next_request r + nat k] \<and>
   (settled r \<longrightarrow>
      users (add_doctors r k)
        = users r @ take (nat (capacity r - count r))
                      [next_request r ..< next_request r + nat k] \<and>
      put_queue (add_doctors r k)
        = put_queue r @ drop (nat (capacity r - count r))
                          [next_request r ..< next_request r + nat k]) \<and>
   (count r = capacity r \<longrightarrow>
      users (add_doctors r k) = users r \<and>
      succeeded (add_doctors r k) = succeeded r \<and>
      put_queue (add_doctors r k) = put_queue r @ [next_request r ..< next_request r + nat k]) \<and>
   capacity (doctor (hospital (DTA1_run es (DTA1_start c t)))) = c \<and>
   capacity (doctor (setup_hospital (DTA1_run es (DTA1_start c t)))) = c \<and>
   capacity (doctor (hospital (uniform_run es (uniform_start c t)))) = c \<and>
   capacity (doctor (setup_hospital (uniform_run es (uniform_start c t)))) = c \<and>
   users (doctor (hospital (DTA1_run es (DTA1_start c t))))
     = take (nat c) [0 ..< add_doctor_turns es] \<and>
   put_queue (doctor (hospital (DTA1_run es (DTA1_start c t))))
     = drop (nat c) [0 ..< add_doctor_turns es] \<and>
   users (doctor (hospital (uniform_run es (uniform_start c t))))
     = take (nat c) [0 ..< add_doctor_turns es] \<and>
   put_queue (doctor (hospital (uniform_run es (uniform_start c t))))
     = drop (nat c) [0 ..< add_doctor_turns es]"
proof -
  have a: "capacity (add_doctors r k) = capacity r"
    by (simp add: add_doctors_def)
  have n: "settled r \<longrightarrow>
      users (add_doctors r k)
        = users r @ take (nat (capacity r - count r))
                      [next_request r ..< next_request r + nat k] \<and>
      put_queue (add_doctors r k)
        = put_queue r @ drop (nat (capacity r - count r))
                          [next_request r ..< next_request r + nat k]"
    using loop_settled [of r "nat k"] by (simp add: add_doctors_def)
  have b: "count r = capacity r \<longrightarrow>
      users (add_doctors r k) = users r \<and>
      succeeded (add_doctors r k) = succeeded r \<and>
      put_queue (add_doctors r k) = put_queue r @ [next_request r ..< next_request r + nat k]"
    using loop_full [of r "nat k"] by (simp add: add_doctors_def)
  have c1: "capacity (doctor (hospital (DTA1_run es (DTA1_start c t)))) = c"
    "capacity (doctor (setup_hospital (DTA1_run es (DTA1_start c t)))) = c"
    using DTA1_run_capacity [of es "DTA1_start c t"]
    by (simp_all add: DTA1_start_def Hospital_DTA1_init_def Resource_start_def)
  have c2: "capacity (doctor (hospital (uniform_run es (uniform_start c t)))) = c"
    "capacity (doctor (setup_hospital (uniform_run es (uniform_start c t)))) = c"
    using uniform_run_capacity [of es "uniform_start c t"]
    by (simp_all add: uniform_start_def Hospital_uniform_init_def Resource_start_def)
  have f: "settled (Resource_start c)"
    by (simp add: settled_def Resource_start_def)
  have g: "users (add_doctors_loop (add_doctor_turns es) (Resource_start c))
             = take (nat c) [0 ..< add_doctor_turns es]"
    "put_queue (add_doctors_loop (add_doctor_turns es) (Resource_start c))
             = drop (nat c) [0 ..< add_doctor_turns es]"
    using loop_settled [OF f, of "add_doctor_turns es"]
    by (simp_all add: Resource_start_def count_def)
  have d1: "users (doctor (hospital (DTA1_run es (DTA1_start c t))))
     = take (nat c) [0 ..< add_doctor_turns es]"
    "put_queue (doctor (hospital (DTA1_run es (DTA1_start c t))))
     = drop (nat c) [0 ..< add_doctor_turns es]"
    using g by (simp_all add: DTA1_run_hospital DTA1_start_def Hospital_DTA1_init_def)
  have d2: "users (doctor (hospital (uniform_run es (uniform_start c t))))
     = take (nat c) [0 ..< add_doctor_turns es]"
    "put_queue (doctor (hospital (uniform_run es (uniform_start c t))))
     = drop (nat c) [0 ..< add_doctor_turns es]"
    using g by (simp_all add: uniform_run_hospital uniform_start_def Hospital_uniform_init_def)
  show ?thesis
    using a n b c1 c2 d1 d2 add_doctors_all [of r k] by blast
qed

theorem add_doctors_capacity_unchanged_witness:
  "settled (Resource_start 2) \<and>
   add_doctors (Resource_start 2) 3
     = \<lparr>capacity = 2, users = [0, 1], put_queue = [2], succeeded = [0, 1], next_request = 3\<rparr> \<and>
   settled \<lparr>capacity = 2, users = [0, 1], put_queue = [2, 3, 4], succeeded = [0, 1],
      next_request = 5\<rparr> \<and>
   count \<lparr>capacity = 2, users = [0, 1], put_queue = [2, 3, 4], succeeded = [0, 1],
      next_request = 5\<rparr> = 2 \<and>
   add_doctors \<lparr>capacity = 2, users = [0, 1], put_queue = [2, 3, 4], succeeded = [0, 1],
      next_request = 5\<rparr> 2
     = \<lparr>capacity = 2, users = [0, 1], put_queue = [2, 3, 4, 5, 6], succeeded = [0, 1],
        next_request = 7\<rparr>"
proof -
  have h1: "settled (Resource_start 2)"
    by (simp add: settled_def Resource_start_def)
  have h2: "settled \<lparr>capacity = 2, users = [0, 1], put_queue = [2, 3, 4],
      succeeded = [0, 1], next_request = 5\<rparr>"
    by (simp add: settled_def count_def)
  have h3: "count \<lparr>capacity = 2, users = [0, 1], put_queue = [2, 3, 4], succeeded = [0, 1],
      next_request = 5\<rparr> = 2"
    by (simp add: count_def)
  have s: "succeeded (add_doctors (Resource_start 2) 3) = [0, 1]"
    "next_request (add_doctors (Resource_start 2) 3) = 3"
    by (simp_all add: pool_defs eval_nat_numeral)
  show ?thesis
    using h1 h2 h3 s
      add_doctors_capacity_unchanged [of "Resource_start 2" 3 "[]" 2 5]
      add_doctors_capacity_unchanged [of "\<lparr>capacity = 2, users = [0, 1],
        put_queue = [2, 3, 4], succeeded = [0, 1], next_request = 5\<rparr>" 2 "[]" 2 5]
    by (simp add: count_def add_doctors_def Resource_start_def upt_conv_Cons)
qed

text \<open>
  C3.  Between zero and \<open>capacity\<close> slots are in use: every operation on the pool keeps
  this bound, and so it holds after every sequence of requests, releases, grant callbacks
  and calls of \<open>add_doctors\<close> on a newly made pool.
\<close>

theorem capacity_bound:
  "(capacity_ok r \<longrightarrow> capacity_ok (pool_step x r)) \<and>
   (Resource_new c = Inr r0 \<longrightarrow>
      0 \<le> count (pool_run xs r0) \<and> count (pool_run xs r0) \<le> capacity (pool_run xs r0))"
proof -
  have "Resource_new c = Inr r0 \<longrightarrow> capacity_ok (pool_run xs r0)"
    using Resource_new_ok [of c r0] pool_run_ok [of r0 xs] by blast
  then show ?thesis
    using pool_step_ok [of r x] by (simp add: capacity_ok_def)
qed

theorem capacity_bound_witness:
  "capacity_ok \<lparr>capacity = 2, users = [0, 1], put_queue = [2], succeeded = [0, 1],
      next_request = 3\<rparr> \<and>
   capacity_ok (pool_step Request \<lparr>capacity = 2, users = [0, 1], put_queue = [2],
      succeeded = [0, 1], next_request = 3\<rparr>) \<and>
   Resource_new 2 = Inr (Resource_start 2) \<and>
   count (pool_run [Request, Request, Request, Release 0, Trigger, AddDoctors 2]
     (Resource_start 2)) = 2 \<and>
   capacity (pool_run [Request, Request, Request, Release 0, Trigger, AddDoctors 2]
     (Resource_start 2)) = 2"
  using capacity_bound [of "\<lparr>capacity = 2, users = [0, 1], put_queue = [2],
      succeeded = [0, 1], next_request = 3\<rparr>" Request 2 "Resource_start 2"
      "[Request, Request, Request, Release 0, Trigger, AddDoctors 2]"]
  by (simp add: pool_defs capacity_ok_def eval_nat_numeral)

text \<open>
  C4.  First in, first out: if request \<open>a\<close> waits in front of request \<open>b\<close> at some point
  of a run of the pool, then whenever \<open>b\<close> has been granted later in the run, \<open>a\<close> has been
  granted before it, and never after it.
\<close>

theorem fifo_grant_order:
  assumes "Resource_new c = Inr r0"
    and "before a b (put_queue (pool_run xs r0))"
    and "b \<in> set (succeeded (pool_run ys (pool_run xs r0)))"
  shows "before a b (succeeded (pool_run ys (pool_run xs r0))) \<and>
         \<not> before b a (succeeded (pool_run ys (pool_run xs r0)))"
proof -
  let ?r = "pool_run xs r0" and ?r' = "pool_run ys (pool_run xs r0)"
  have f: "filed_in_order ?r"
    using assms(1) by (simp add: Resource_new_filed pool_run_filed)
  then have f': "filed_in_order ?r'"
    by (rule pool_run_filed)
  from f assms(2) have ab: "a \<in> set (put_queue ?r)" "a < b"
    using before_sorted [OF filed_sorted(2) [OF f], of a b] by simp_all
  have "a < next_request ?r"
    using filed_sorted(4) [OF f] ab(1) by auto
  then have "a < next_request ?r'"
    using pool_run_next_mono [of ?r ys] by simp
  then have "a \<in> set (succeeded ?r') \<union> set (put_queue ?r')"
    using filed_sorted(4) [OF f'] by simp
  moreover have "a \<notin> set (put_queue ?r')"
    using filed_sorted(3) [OF f'] assms(3) ab(2) by fastforce
  ultimately have "a \<in> set (succeeded ?r')"
    by simp
  then show ?thesis
    using before_sorted [OF filed_sorted(1) [OF f']] assms(3) ab(2) by simp
qed

theorem fifo_grant_order_witness:
  "Resource_new 1 = Inr (Resource_start 1) \<and>
   before 1 2 (put_queue (pool_run [Request, Request, Request] (Resource_start 1))) \<and>
   2 \<in> set (succeeded (pool_run [Release 0, Trigger, Release 1, Trigger]
          (pool_run [Request, Request, Request] (Resource_start 1)))) \<and>
   succeeded (pool_run [Release 0, Trigger, Release 1, Trigger]
          (pool_run [Request, Request, Request] (Resource_start 1))) = [0, 1, 2] \<and>
   before 1 2 (succeeded (pool_run [Release 0, Trigger, Release 1, Trigger]
          (pool_run [Request, Request, Request] (Resource_start 1))))"
proof -
  have h1: "Resource_new 1 = Inr (Resource_start 1)"
    by (simp add: Resource_new_def)
  have h2: "before 1 2 (put_queue (pool_run [Request, Request, Request] (Resource_start 1)))"
    by (simp add: pool_defs)
  have h3: "2 \<in> set (succeeded (pool_run [Release 0, Trigger, Release 1, Trigger]
          (pool_run [Request, Request, Request] (Resource_start 1))))"
    by (simp add: pool_defs)
  have "succeeded (pool_run [Release 0, Trigger, Release 1, Trigger]
          (pool_run [Request, Request, Request] (Resource_start 1))) = [0, 1, 2]"
    by (simp add: pool_defs)
  then show ?thesis
    using h1 h2 h3 fifo_grant_order [OF h1 h2 h3] by simp
qed

section \<open>The claims about the runs\<close>

text \<open>
  C6.  Conservation: in every run of either script in which every patient process has
  returned (treated, or left without treatment), the number of arrivals is the number of
  treated patients plus the number of patients that left without treatment.
\<close>

theorem conservation:
  "((\<forall>p\<in>set (processes (DTA1_run es (DTA1_start c t))). terminal p) \<longrightarrow>
      total_patients (DTA1_run es (DTA1_start c t))
        = treated_count (DTA1_run es (DTA1_start c t))
          + left_without_treatment_count (DTA1_run es (DTA1_start c t))) \<and>
   ((\<forall>p\<in>set (processes (uniform_run es (uniform_start c t))). terminal p) \<longrightarrow>
      total_patients (uniform_run es (uniform_start c t))
        = treated_count (uniform_run es (uniform_start c t))
          + left_without_treatment_count (uniform_run es (uniform_start c t)))"
proof -
  have "tallies (DTA1_run es (DTA1_start c t))"
    by (simp add: DTA1_start_tallies DTA1_run_tallies)
  moreover have "tallies (uniform_run es (uniform_start c t))"
    by (simp add: uniform_start_tallies uniform_run_tallies)
  ultimately show ?thesis
    using all_terminal [of "processes (DTA1_run es (DTA1_start c t))"]
      all_terminal [of "processes (uniform_run es (uniform_start c t))"]
    by (simp add: tallies_def number_of_def total_patients_def treated_count_def
        left_without_treatment_count_def)
qed

theorem conservation_witness:
  "processes (DTA1_run [Arrive, Arrive, Granted 0 (9 / 10), Granted 1 (1 / 2),
       Advance 4, TreatmentDone 1] (DTA1_start 2 5)) = [LeftWithoutTreatment, Treated] \<and>
   total_patients (DTA1_run [Arrive, Arrive, Granted 0 (9 / 10), Granted 1 (1 / 2),
       Advance 4, TreatmentDone 1] (DTA1_start 2 5)) = 2 \<and>
   treated_count (DTA1_run [Arrive, Arrive, Granted 0 (9 / 10), Granted 1 (1 / 2),
       Advance 4, TreatmentDone 1] (DTA1_start 2 5)) = 1 \<and>
   left_without_treatment_count (DTA1_run [Arrive, Arrive, Granted 0 (9 / 10),
       Granted 1 (1 / 2), Advance 4, TreatmentDone 1] (DTA1_start 2 5)) = 1 \<and>
   processes (uniform_run [Arrive, Joined 0, Granted 0 (9 / 10)] (uniform_start 2 5))
     = [LeftWithoutTreatment] \<and>
   total_patients (uniform_run [Arrive, Joined 0, Granted 0 (9 / 10)] (uniform_start 2 5)) = 1 \<and>
   treated_count (uniform_run [Arrive, Joined 0, Granted 0 (9 / 10)] (uniform_start 2 5)) = 0 \<and>
   left_without_treatment_count (uniform_run [Arrive, Joined 0, Granted 0 (9 / 10)]
       (uniform_start 2 5)) = 1"
proof -
  have d: "processes (DTA1_run [Arrive, Arrive, Granted 0 (9 / 10), Granted 1 (1 / 2),
       Advance 4, TreatmentDone 1] (DTA1_start 2 5)) = [LeftWithoutTreatment, Treated]"
    by (simp add: DTA1_defs pool_defs)
  have u: "processes (uniform_run [Arrive, Joined 0, Granted 0 (9 / 10)] (uniform_start 2 5))
       = [LeftWithoutTreatment]"
    by (simp add: uniform_defs pool_defs)
  have td: "treated_count (DTA1_run [Arrive, Arrive, Granted 0 (9 / 10), Granted 1 (1 / 2),
       Advance 4, TreatmentDone 1] (DTA1_start 2 5)) = 1"
    by (simp add: DTA1_defs pool_defs treated_count_def)
  have tu: "treated_count (uniform_run [Arrive, Joined 0, Granted 0 (9 / 10)] (uniform_start 2 5)) = 0"
    by (simp add: uniform_defs pool_defs treated_count_def)
  have ad: "total_patients (DTA1_run [Arrive, Arrive, Granted 0 (9 / 10), Granted 1 (1 / 2),
       Advance 4, TreatmentDone 1] (DTA1_start 2 5)) = 2"
    by (simp add: DTA1_defs pool_defs total_patients_def)
  have au: "total_patients (uniform_run [Arrive, Joined 0, Granted 0 (9 / 10)] (uniform_start 2 5)) = 1"
    by (simp add: uniform_defs pool_defs total_patients_def)
  show ?thesis
    using conservation [of "[Arrive, Arrive, Granted 0 (9 / 10), Granted 1 (1 / 2),
       Advance 4, TreatmentDone 1]" 2 5]
      conservation [of "[Arrive, Joined 0, Granted 0 (9 / 10)]" 2 5]
      d u td tu ad au
    by simp
qed

text \<open>
  C7, as claimed, fails.  The wait time is appended when the doctor is granted, not when
  the patient is done.  With four patients at time 0 and two doctors, the first two are
  granted at once and are still being treated at time 1: no patient has completed, yet two
  wait times are recorded and the average is 0, not the value for "no data".  When the
  first patient is done at time 3 and the third is granted, one patient has completed and
  three wait times are averaged.
\<close>

theorem average_wait_time_not_terminal_example:
  "number_of terminal
      (DTA1_run [Arrive, Arrive, Arrive, Arrive, Granted 0 (1 / 2), Granted 1 (1 / 4), Advance 1]
        (DTA1_start 2 5)) = 0 \<and>
   average_wait_time
      (DTA1_run [Arrive, Arrive, Arrive, Arrive, Granted 0 (1 / 2), Granted 1 (1 / 4), Advance 1]
        (DTA1_start 2 5)) = Finite 0 \<and>
   average_wait_time
      (DTA1_run [Arrive, Arrive, Arrive, Arrive, Granted 0 (1 / 2), Granted 1 (1 / 4), Advance 1]
        (DTA1_start 2 5)) \<noteq> Infinity \<and>
   processes
      (DTA1_run [Arrive, Arrive, Arrive, Arrive, Granted 0 (1 / 2), Granted 1 (1 / 4), Advance 3,
         TreatmentDone 0, Callback, Granted 2 (1 / 2)] (DTA1_start 2 5))
     = [Treated, Treating 1, Treating 2, Waiting 3 0] \<and>
   wait_times
      (DTA1_run [Arrive, Arrive, Arrive, Arrive, Granted 0 (1 / 2), Granted 1 (1 / 4), Advance 3,
         TreatmentDone 0, Callback, Granted 2 (1 / 2)] (DTA1_start 2 5))
     = [0, 0, 3] \<and>
   average_wait_time
      (DTA1_run [Arrive, Arrive, Arrive, Arrive, Granted 0 (1 / 2), Granted 1 (1 / 4), Advance 3,
         TreatmentDone 0, Callback, Granted 2 (1 / 2)] (DTA1_start 2 5))
     = Finite 1"
  by (simp add: DTA1_defs pool_defs number_of_def average_wait_time_def)

text \<open>
  C7, amended.  In every run of either script one wait time is recorded for each patient
  that has been granted a doctor, whether or not it has completed since;
  \<open>average_wait_time\<close> is the mean of these, and infinity, without an exception, when no
  patient has been granted a doctor.  The value recorded at a grant is the time of the
  grant minus the patient's arrival time.
\<close>

theorem average_wait_time_granted:
  "length (wait_times (DTA1_run es (DTA1_start c t)))
     = number_of granted (DTA1_run es (DTA1_start c t)) \<and>
   average_wait_time (DTA1_run es (DTA1_start c t))
     = (if number_of granted (DTA1_run es (DTA1_start c t)) = 0 then Infinity
        else Finite (sum_list (wait_times (DTA1_run es (DTA1_start c t)))
               / real (number_of granted (DTA1_run es (DTA1_start c t))))) \<and>
   length (wait_times (uniform_run es (uniform_start c t)))
     = number_of granted (uniform_run es (uniform_start c t)) \<and>
   average_wait_time (uniform_run es (uniform_start c t))
     = (if number_of granted (uniform_run es (uniform_start c t)) = 0 then Infinity
        else Finite (sum_list (wait_times (uniform_run es (uniform_start c t)))
               / real (number_of granted (uniform_run es (uniform_start c t))))) \<and>
   (i < length (processes s) \<and> processes s ! i = Waiting e a \<and>
    e \<in> set (succeeded (doctor (setup_hospital s))) \<longrightarrow>
      wait_times (patient_granted i u s) = wait_times s @ [now s - a] \<and>
      granted (processes (patient_granted i u s) ! i))"
proof -
  have d: "tallies (DTA1_run es (DTA1_start c t))"
    by (simp add: DTA1_start_tallies DTA1_run_tallies)
  have u: "tallies (uniform_run es (uniform_start c t))"
    by (simp add: uniform_start_tallies uniform_run_tallies)
  have g: "i < length (processes s) \<and> processes s ! i = Waiting e a \<and>
    e \<in> set (succeeded (doctor (setup_hospital s))) \<longrightarrow>
      wait_times (patient_granted i u s) = wait_times s @ [now s - a] \<and>
      granted (processes (patient_granted i u s) ! i)"
    by (simp add: patient_granted_def Let_def)
  have ld: "length (wait_times (DTA1_run es (DTA1_start c t)))
     = number_of granted (DTA1_run es (DTA1_start c t))"
    using d by (simp add: tallies_def)
  have lu: "length (wait_times (uniform_run es (uniform_start c t)))
     = number_of granted (uniform_run es (uniform_start c t))"
    using u by (simp add: tallies_def)
  show ?thesis
    using ld lu g average_wait_time_count [OF ld] average_wait_time_count [OF lu]
    by blast
qed

theorem average_wait_time_granted_witness:
  "2 < length (processes (DTA1_run [Arrive, Arrive, Arrive, Advance 3, Granted 0 (9 / 10), Callback]
       (DTA1_start 2 5))) \<and>
   processes (DTA1_run [Arrive, Arrive, Arrive, Advance 3, Granted 0 (9 / 10), Callback]
       (DTA1_start 2 5)) ! 2 = Waiting 2 0 \<and>
   2 \<in> set (succeeded (doctor (setup_hospital
       (DTA1_run [Arrive, Arrive, Arrive, Advance 3, Granted 0 (9 / 10), Callback]
         (DTA1_start 2 5))))) \<and>
   wait_times (patient_granted 2 (1 / 2)
       (DTA1_run [Arrive, Arrive, Arrive, Advance 3, Granted 0 (9 / 10), Callback]
         (DTA1_start 2 5))) = [3, 3] \<and>
   average_wait_time (DTA1_run [Arrive, Arrive, Arrive, Advance 3, Granted 0 (9 / 10), Callback,
       Granted 2 (1 / 2)] (DTA1_start 2 5)) = Finite 3"
proof -
  let ?s = "DTA1_run [Arrive, Arrive, Arrive, Advance 3, Granted 0 (9 / 10), Callback]
       (DTA1_start 2 5)"
  have p: "processes ?s = [LeftWithoutTreatment, Waiting 1 0, Waiting 2 0]"
    by (simp add: DTA1_defs pool_defs)
  have q: "succeeded (doctor (setup_hospital ?s)) = [0, 1, 2]"
    by (simp add: DTA1_defs pool_defs)
  have w: "wait_times ?s = [3]" "now ?s = 3"
    by (simp_all add: DTA1_defs pool_defs)
  have h: "2 < length (processes ?s) \<and> processes ?s ! 2 = Waiting 2 0 \<and>
     2 \<in> set (succeeded (doctor (setup_hospital ?s)))"
    unfolding p q by simp
  have n: "number_of granted (DTA1_run [Arrive, Arrive, Arrive, Advance 3, Granted 0 (9 / 10),
       Callback, Granted 2 (1 / 2)] (DTA1_start 2 5)) = 2"
    "wait_times (DTA1_run [Arrive, Arrive, Arrive, Advance 3, Granted 0 (9 / 10),
       Callback, Granted 2 (1 / 2)] (DTA1_start 2 5)) = [3, 3]"
    by (simp_all add: DTA1_defs pool_defs number_of_def)
  show ?thesis
    using h w n
      average_wait_time_granted [of "[Arrive, Arrive, Arrive, Advance 3, Granted 0 (9 / 10),
        Callback, Granted 2 (1 / 2)]" 2 5 2 ?s 2 0 "1 / 2"]
    by simp
qed

text \<open>
  C8.  In every run of either script there is one queue-length sample for each arrival and
  one for each grant; \<open>average_queue_length\<close> is the sum of the samples divided by their
  number, and 0 when there is none.  In DTA1.py the sampled counter is the number of
  patients that have arrived and have not been granted a doctor.

  Against the pool: in DTA1.py every request on the patients' pool is an arrival, and the
  samples, with the grants whose patient the kernel has not resumed yet, are the requests
  filed plus the requests granted.  In uniform.py every item of the store is an arrival,
  and the samples, with the grants not yet taken up, are the arrivals plus the requests
  granted.

  Step by step: an arrival appends exactly one sample, a resumption after a grant appends
  exactly one sample when it is due and none otherwise, and no other step appends any.
\<close>

theorem average_queue_length_samples:
  "length (queue_lengths (DTA1_run es (DTA1_start c t)))
     = total_patients (DTA1_run es (DTA1_start c t))
       + number_of granted (DTA1_run es (DTA1_start c t)) \<and>
   average_queue_length (DTA1_run es (DTA1_start c t))
     = (if queue_lengths (DTA1_run es (DTA1_start c t)) = [] then 0
        else real_of_int (sum_list (queue_lengths (DTA1_run es (DTA1_start c t))))
               / real (total_patients (DTA1_run es (DTA1_start c t))
                       + number_of granted (DTA1_run es (DTA1_start c t)))) \<and>
   queue_length (setup_hospital (DTA1_run es (DTA1_start c t)))
     = int (number_of (\<lambda>p. \<not> granted p) (DTA1_run es (DTA1_start c t))) \<and>
   length (queue_lengths (uniform_run es (uniform_start c t)))
     = total_patients (uniform_run es (uniform_start c t))
       + number_of granted (uniform_run es (uniform_start c t)) \<and>
   average_queue_length (uniform_run es (uniform_start c t))
     = (if queue_lengths (uniform_run es (uniform_start c t)) = [] then 0
        else real_of_int (sum_list (queue_lengths (uniform_run es (uniform_start c t))))
               / real (total_patients (uniform_run es (uniform_start c t))
                       + number_of granted (uniform_run es (uniform_start c t)))) \<and>
   next_request (doctor (setup_hospital (DTA1_run es (DTA1_start c t))))
     = total_patients (DTA1_run es (DTA1_start c t)) \<and>
   length (queue_lengths (DTA1_run es (DTA1_start c t)))
       + number_of (pending (doctor (setup_hospital (DTA1_run es (DTA1_start c t)))))
           (DTA1_run es (DTA1_start c t))
     = next_request (doctor (setup_hospital (DTA1_run es (DTA1_start c t))))
       + length (succeeded (doctor (setup_hospital (DTA1_run es (DTA1_start c t))))) \<and>
   length (items (queue (setup_hospital (uniform_run es (uniform_start c t)))))
     = total_patients (uniform_run es (uniform_start c t)) \<and>
   next_request (doctor (setup_hospital (uniform_run es (uniform_start c t))))
       + number_of joining (uniform_run es (uniform_start c t))
     = total_patients (uniform_run es (uniform_start c t)) \<and>
   length (queue_lengths (uniform_run es (uniform_start c t)))
       + number_of (pending (doctor (setup_hospital (uniform_run es (uniform_start c t)))))
           (uniform_run es (uniform_start c t))
     = total_patients (uniform_run es (uniform_start c t))
       + length (succeeded (doctor (setup_hospital (uniform_run es (uniform_start c t))))) \<and>
   queue_lengths (patient_arrives s) = queue_lengths s @ [queue_length (setup_hospital s) + 1] \<and>
   next_request (doctor (setup_hospital (patient_arrives s)))
     = Suc (next_request (doctor (setup_hospital s))) \<and>
   queue_lengths (patient_granted i u s)
     = (if due i s then queue_lengths s @ [queue_length (setup_hospital s) - 1]
        else queue_lengths s) \<and>
   queue_lengths (DTA1_step (Advance t') s) = queue_lengths s \<and>
   queue_lengths (DTA1_step (Joined i) s) = queue_lengths s \<and>
   queue_lengths (DTA1_step (TreatmentDone i) s) = queue_lengths s \<and>
   queue_lengths (DTA1_step Callback s) = queue_lengths s \<and>
   queue_lengths (DTA1_step AddDoctor s) = queue_lengths s \<and>
   queue_lengths (uniform_patient_arrives v)
     = queue_lengths v @ [int (length (items (queue (setup_hospital v))))] \<and>
   items (queue (setup_hospital (uniform_patient_arrives v)))
     = items (queue (setup_hospital v)) @ [Suc (length (processes v))] \<and>
   queue_lengths (uniform_patient_granted i u v)
     = (if due i v then queue_lengths v @ [int (length (items (queue (setup_hospital v))))]
        else queue_lengths v) \<and>
   queue_lengths (uniform_step (Advance t') v) = queue_lengths v \<and>
   queue_lengths (uniform_step (Joined i) v) = queue_lengths v \<and>
   queue_lengths (uniform_step (TreatmentDone i) v) = queue_lengths v \<and>
   queue_lengths (uniform_step Callback v) = queue_lengths v \<and>
   queue_lengths (uniform_step AddDoctor v) = queue_lengths v"
proof -
  let ?d = "DTA1_run es (DTA1_start c t)" and ?u = "uniform_run es (uniform_start c t)"
  have d: "tallies ?d"
    by (simp add: DTA1_start_tallies DTA1_run_tallies)
  have u: "tallies ?u"
    by (simp add: uniform_start_tallies uniform_run_tallies)
  have k: "counter_kept ?d"
    by (simp add: DTA1_start_counter DTA1_run_counter)
  have ld: "length (queue_lengths ?d) = total_patients ?d + number_of granted ?d"
    using d by (simp add: tallies_def total_patients_def)
  have lu: "length (queue_lengths ?u) = total_patients ?u + number_of granted ?u"
    using u by (simp add: tallies_def total_patients_def)
  have "number_of granted ?d \<le> length (processes ?d)"
    by (simp add: number_of_def)
  then have q: "queue_length (setup_hospital ?d) = int (number_of (\<lambda>p. \<not> granted p) ?d)"
    using d k by (simp add: tallies_def counter_kept_def number_of_def waiting_count)
  have ad: "average_queue_length ?d
     = (if queue_lengths ?d = [] then 0
        else real_of_int (sum_list (queue_lengths ?d))
               / real (total_patients ?d + number_of granted ?d))"
    by (simp add: average_queue_length_def flip: ld)
  have au: "average_queue_length ?u
     = (if queue_lengths ?u = [] then 0
        else real_of_int (sum_list (queue_lengths ?u))
               / real (total_patients ?u + number_of granted ?u))"
    by (simp add: average_queue_length_def flip: lu)
  have fd: "requests_filed ?d \<and> number_of joining ?d = 0"
    by (rule DTA1_run_filed [OF DTA1_start_filed])
  have nd: "next_request (doctor (setup_hospital ?d)) = total_patients ?d"
    using fd d by (simp add: requests_filed_def tallies_def total_patients_def)
  have cd: "length (succeeded (doctor (setup_hospital ?d)))
       = number_of granted ?d + number_of (pending (doctor (setup_hospital ?d))) ?d"
    by (rule linked_count [OF DTA1_run_linked [OF DTA1_start_linked]])
  have pd: "length (queue_lengths ?d) + number_of (pending (doctor (setup_hospital ?d))) ?d
     = next_request (doctor (setup_hospital ?d)) + length (succeeded (doctor (setup_hospital ?d)))"
    using ld nd cd by simp
  have st: "store_kept ?u"
    by (simp add: uniform_start_store uniform_run_store)
  have iu: "length (items (queue (setup_hospital ?u))) = total_patients ?u"
    using st u by (simp add: store_kept_def tallies_def total_patients_def)
  have nu: "next_request (doctor (setup_hospital ?u)) + number_of joining ?u = total_patients ?u"
    using uniform_run_filed [OF uniform_start_filed, of es c t] u
    by (simp add: requests_filed_def tallies_def total_patients_def)
  have cu: "length (succeeded (doctor (setup_hospital ?u)))
       = number_of granted ?u + number_of (pending (doctor (setup_hospital ?u))) ?u"
    by (rule linked_count [OF uniform_run_linked [OF uniform_start_linked]])
  have pu: "length (queue_lengths ?u) + number_of (pending (doctor (setup_hospital ?u))) ?u
     = total_patients ?u + length (succeeded (doctor (setup_hospital ?u)))"
    using lu cu by simp
  show ?thesis
    using ld ad q lu au nd pd iu nu pu
      patient_arrives_sample [of s] patient_granted_sample [of i u s]
      DTA1_step_no_sample [of t' s i]
      uniform_patient_arrives_sample [of v] uniform_patient_granted_sample [of i u v]
      uniform_step_no_sample [of t' v i]
    by blast
qed

theorem average_queue_length_samples_witness:
  "due 2 (DTA1_run [Arrive, Arrive, Arrive, Arrive, Granted 0 (1 / 2), Granted 1 (1 / 2),
       Advance 3, TreatmentDone 0, Callback] (DTA1_start 2 5)) \<and>
   queue_lengths (patient_granted 2 (1 / 2)
     (DTA1_run [Arrive, Arrive, Arrive, Arrive, Granted 0 (1 / 2), Granted 1 (1 / 2),
       Advance 3, TreatmentDone 0, Callback] (DTA1_start 2 5))) = [1, 2, 3, 4, 3, 2, 1] \<and>
   queue_lengths (patient_granted 3 (1 / 2)
     (DTA1_run [Arrive, Arrive, Arrive, Arrive, Granted 0 (1 / 2), Granted 1 (1 / 2),
       Advance 3, TreatmentDone 0, Callback] (DTA1_start 2 5))) = [1, 2, 3, 4, 3, 2]"
proof -
  let ?s = "DTA1_run [Arrive, Arrive, Arrive, Arrive, Granted 0 (1 / 2), Granted 1 (1 / 2),
       Advance 3, TreatmentDone 0, Callback] (DTA1_start 2 5)"
  have q: "queue_lengths ?s = [1, 2, 3, 4, 3, 2]" "queue_length (setup_hospital ?s) = 2"
    by (simp_all add: DTA1_defs pool_defs)
  have d2: "due 2 ?s"
    by (simp add: due_def pending_def DTA1_defs pool_defs)
  have d3: "\<not> due 3 ?s"
    by (simp add: due_def pending_def DTA1_defs pool_defs)
  show ?thesis
    using d2 d3 q
      average_queue_length_samples [of "[]" 2 5 ?s 2 "1 / 2" 0 "uniform_start 2 5"]
      average_queue_length_samples [of "[]" 2 5 ?s 3 "1 / 2" 0 "uniform_start 2 5"]
    by simp
qed

text \<open>
  C9.  The throughput is the number of treated patients divided by the fixed window of
  200 minutes (the literal 200 in DTA1.py, \<open>SIM_TIME\<close> in uniform.py); it does not depend
  on the clock.
\<close>

theorem throughput_fixed_window:
  "throughput_DTA1 (DTA1_run es (DTA1_start c t))
     = real (number_of (\<lambda>p. p = Treated) (DTA1_run es (DTA1_start c t))) / 200 \<and>
   throughput_DTA1 (DTA1_run es (DTA1_start c t))
     = real (treated_count (DTA1_run es (DTA1_start c t))) / 200 \<and>
   throughput_DTA1 ((DTA1_run es (DTA1_start c t))\<lparr>now := t'\<rparr>)
     = throughput_DTA1 (DTA1_run es (DTA1_start c t)) \<and>
   throughput_uniform (uniform_run es (uniform_start c t))
     = real (number_of (\<lambda>p. p = Treated) (uniform_run es (uniform_start c t))) / 200 \<and>
   throughput_uniform (uniform_run es (uniform_start c t))
     = real (treated_count (uniform_run es (uniform_start c t))) / real_of_int SIM_TIME \<and>
   throughput_uniform ((uniform_run es (uniform_start c t))\<lparr>now := t'\<rparr>)
     = throughput_uniform (uniform_run es (uniform_start c t))"
proof -
  have d: "tallies (DTA1_run es (DTA1_start c t))"
    by (simp add: DTA1_start_tallies DTA1_run_tallies)
  have u: "tallies (uniform_run es (uniform_start c t))"
    by (simp add: uniform_start_tallies uniform_run_tallies)
  show ?thesis
    using d u
    by (simp add: tallies_def throughput_DTA1_def throughput_uniform_def treated_count_def
        SIM_TIME_def)
qed

text \<open>
  C10.  uniform.py: the store holds as many names as patients have arrived, no step of the
  run takes a name out, each sample that a step records is the number of patients that
  had arrived before that step, and the samples never go down.  They do not count the
  patients that wait: after three patients have come and gone the fourth arrival records 3.
\<close>

theorem store_never_emptied:
  "length (items (queue (setup_hospital (uniform_run es (uniform_start c t)))))
     = total_patients (uniform_run es (uniform_start c t)) \<and>
   take (length (items (queue (setup_hospital s))))
        (items (queue (setup_hospital (uniform_step e s))))
     = items (queue (setup_hospital s)) \<and>
   (queue_lengths (uniform_step e (uniform_run es (uniform_start c t)))
      = queue_lengths (uniform_run es (uniform_start c t)) \<or>
    queue_lengths (uniform_step e (uniform_run es (uniform_start c t)))
      = queue_lengths (uniform_run es (uniform_start c t))
        @ [int (total_patients (uniform_run es (uniform_start c t)))]) \<and>
   queue_lengths (uniform_patient_arrives (uniform_run es (uniform_start c t)))
      = queue_lengths (uniform_run es (uniform_start c t))
        @ [int (total_patients (uniform_run es (uniform_start c t)))] \<and>
   sorted (queue_lengths (uniform_run es (uniform_start c t))) \<and>
   queue_lengths (uniform_run [Arrive, Arrive, Arrive, Joined 0, Joined 1, Joined 2,
       Granted 0 (9 / 10), Granted 1 (9 / 10), Callback, Granted 2 (9 / 10), Advance 7, Arrive]
       (uniform_start 2 5)) = [0, 1, 2, 3, 3, 3, 3] \<and>
   processes (uniform_run [Arrive, Arrive, Arrive, Joined 0, Joined 1, Joined 2,
       Granted 0 (9 / 10), Granted 1 (9 / 10), Callback, Granted 2 (9 / 10), Advance 7, Arrive]
       (uniform_start 2 5))
     = [LeftWithoutTreatment, LeftWithoutTreatment, LeftWithoutTreatment, Joining 7]"
proof -
  let ?u = "uniform_run es (uniform_start c t)"
  have k: "store_kept ?u"
    by (simp add: uniform_start_store uniform_run_store)
  have u: "tallies ?u"
    by (simp add: uniform_start_tallies uniform_run_tallies)
  have n: "length (items (queue (setup_hospital ?u))) = total_patients ?u"
    using k u by (simp add: store_kept_def tallies_def total_patients_def)
  have a: "queue_lengths (uniform_patient_arrives ?u)
      = queue_lengths ?u @ [int (total_patients ?u)]"
    using n by (simp add: uniform_patient_arrives_def Let_def)
  have s: "sorted (queue_lengths ?u)"
    using k by (simp add: store_kept_def)
  have x: "queue_lengths (uniform_run [Arrive, Arrive, Arrive, Joined 0, Joined 1, Joined 2,
       Granted 0 (9 / 10), Granted 1 (9 / 10), Callback, Granted 2 (9 / 10), Advance 7, Arrive]
       (uniform_start 2 5)) = [0, 1, 2, 3, 3, 3, 3]"
    by (simp add: uniform_defs pool_defs)
  have y: "processes (uniform_run [Arrive, Arrive, Arrive, Joined 0, Joined 1, Joined 2,
       Granted 0 (9 / 10), Granted 1 (9 / 10), Callback, Granted 2 (9 / 10), Advance 7, Arrive]
       (uniform_start 2 5))
     = [LeftWithoutTreatment, LeftWithoutTreatment, LeftWithoutTreatment, Joining 7]"
    by (simp add: uniform_defs pool_defs)
  show ?thesis
    using n a s x y uniform_step_items [of s e] uniform_step_sample [OF n, of e]
    by blast
qed

end
